theory Spec2Isabelle
  imports Complex_Main "HOL-Library.Multiset"
begin

section \<open>Data model\<close>

text \<open>
  The embedding follows \<^verbatim>\<open>src/fermipy/sourcefind.py\<close>. Python floats are modelled by
  \<^typ>\<open>real\<close> (no rounding and no NaN), Python integers by \<^typ>\<open>int\<close>, and pixel
  indices, which are never negative, by \<^typ>\<open>nat\<close>. Every exception is a value of
  \<open>error\<close>; a function that can raise returns \<open>error + 'a\<close>, with \<open>Inl\<close> the exception.
\<close>

datatype error = OverflowError | ValueError | IndexError | EngineError

text \<open>
  A two-dimensional numpy array: its shape and its elements. \<open>val a i j\<close> is \<^verbatim>\<open>a[i, j]\<close>
  (row \<open>i\<close>, column \<open>j\<close>) and is only read for \<open>i < nrows a\<close> and \<open>j < ncols a\<close>.
\<close>

record 'a ndarray =
  nrows :: nat
  ncols :: nat
  val :: "nat \<Rightarrow> nat \<Rightarrow> 'a"

definition of_rows :: "'a list list \<Rightarrow> 'a ndarray" where
  "of_rows rs = \<lparr>nrows = length rs, ncols = (case rs of [] \<Rightarrow> 0 | r # _ \<Rightarrow> length r),
     val = (\<lambda>i j. rs ! i ! j)\<rparr>"

text \<open>A sky coordinate, as the pair (ra, dec) of its ICRS angles in degrees.\<close>

type_synonym skycoord = "real \<times> real"

text \<open>
  \<^verbatim>\<open>fermipy.utils.Map\<close>: the pixel values \<^verbatim>\<open>counts\<close> and the WCS, of which the code uses
  the two pixel scales \<^verbatim>\<open>wcs.wcs.cdelt\<close> and the pixel-to-sky mapping
  (\<^verbatim>\<open>SkyCoord.from_pixel(x, y, wcs)\<close>, here \<open>from_pixel m x y\<close>).
\<close>

record skymap =
  counts :: "real ndarray"
  cdelt :: "real \<times> real"
  from_pixel :: "nat \<Rightarrow> nat \<Rightarrow> skycoord"

text \<open>The dictionary \<^verbatim>\<open>{'ix': .., 'iy': .., 'skydir': .., 'amp': ..}\<close> built for each peak.\<close>

record peak =
  ix :: nat
  iy :: nat
  skydir :: skycoord
  amp :: real

type_synonym pixel = "nat \<times> nat"

record slice =
  start :: nat
  stop :: nat

section \<open>The footprint (lines 38 to 41)\<close>

text \<open>Python's \<^verbatim>\<open>int(x)\<close> on a float truncates towards zero.\<close>

definition py_int :: "real \<Rightarrow> int" where
  "py_int x = (if 0 \<le> x then \<lfloor>x\<rfloor> else \<lceil>x\<rceil>)"

text \<open>\<^verbatim>\<open>max(input_map.wcs.wcs.cdelt)\<close>: the larger of the two axis scales.\<close>

definition max_cdelt :: "skymap \<Rightarrow> real" where
  "max_cdelt input_map = max (fst (cdelt input_map)) (snd (cdelt input_map))"

text \<open>
  Modelled from the spec: \<^verbatim>\<open>utils.make_pixel_offset\<close> is not among the sources. The spec
  (4.1, step 1) has it build a square grid of side \<open>npix\<close>, centred at its own middle,
  each cell holding its distance from the centre in pixels. A negative side cannot be
  built (\<^verbatim>\<open>ValueError\<close>); the side \<open>2 * region_size_pix + 3\<close> is odd, so it is never 0.
\<close>

definition make_pixel_offset :: "int \<Rightarrow> error + real ndarray" where
  "make_pixel_offset npix =
     (if npix < 0 then Inl ValueError
      else Inr \<lparr>nrows = nat npix, ncols = nat npix,
        val = (\<lambda>a b. sqrt ((real b - (real_of_int npix - 1) / 2)\<^sup>2
                          + (real a - (real_of_int npix - 1) / 2)\<^sup>2))\<rparr>)"

text \<open>
  Lines 38 to 41. A zero pixel scale makes the quotient infinite (or NaN), and \<^verbatim>\<open>int\<close>
  raises on it.
\<close>

definition footprint :: "skymap \<Rightarrow> real \<Rightarrow> error + bool ndarray" where
  "footprint input_map min_separation =
     (if max_cdelt input_map = 0 then Inl OverflowError
      else
        let region_size_pix = py_int (min_separation / max_cdelt input_map) in
        case make_pixel_offset (region_size_pix * 2 + 3) of
          Inl e \<Rightarrow> Inl e
        | Inr deltaxy \<Rightarrow>
            Inr \<lparr>nrows = nrows deltaxy, ncols = ncols deltaxy,
              val = (\<lambda>a b. val deltaxy a b * max_cdelt input_map < min_separation)\<rparr>)"

section \<open>The maximum filter (lines 47 to 49)\<close>

text \<open>
  \<^verbatim>\<open>scipy.ndimage.maximum_filter(data, footprint=region)\<close> with its default boundary mode
  \<^verbatim>\<open>'reflect'\<close> and origin 0: the grid is extended by mirroring about the edge of the
  last pixel (\<^verbatim>\<open>d c b a | a b c d | d c b a\<close>); the footprint is centred at
  \<open>shape div 2\<close>; the output at a pixel is the largest extended value under the footprint.
  A footprint with no true cell is refused (\<^verbatim>\<open>ValueError\<close>).
\<close>

definition reflect :: "nat \<Rightarrow> int \<Rightarrow> nat" where
  "reflect n k =
     (let m = k mod (2 * int n) in if m < int n then nat m else nat (2 * int n - 1 - m))"

definition footprint_offsets :: "bool ndarray \<Rightarrow> (int \<times> int) list" where
  "footprint_offsets fp =
     [(int a - int (nrows fp div 2), int b - int (ncols fp div 2)).
        a \<leftarrow> [0..<nrows fp], b \<leftarrow> [0..<ncols fp], val fp a b]"

definition window :: "real ndarray \<Rightarrow> (int \<times> int) list \<Rightarrow> nat \<Rightarrow> nat \<Rightarrow> real list" where
  "window data offs i j =
     map (\<lambda>(dy, dx). val data (reflect (nrows data) (int i + dy))
                               (reflect (ncols data) (int j + dx))) offs"

definition maximum_filter :: "real ndarray \<Rightarrow> bool ndarray \<Rightarrow> error + real ndarray" where
  "maximum_filter data fp =
     (if footprint_offsets fp = [] then Inl ValueError
      else Inr \<lparr>nrows = nrows data, ncols = ncols data,
        val = (\<lambda>i j. Max (set (window data (footprint_offsets fp) i j)))\<rparr>)"

text \<open>
  Lines 47 to 49: \<^verbatim>\<open>local_max = maximum_filter(..) == data\<close>, then
  \<^verbatim>\<open>local_max[data < threshold] = False\<close>.
\<close>

definition local_max :: "skymap \<Rightarrow> real \<Rightarrow> real \<Rightarrow> error + bool ndarray" where
  "local_max input_map threshold min_separation =
     (let data = counts input_map in
      case footprint input_map min_separation of
        Inl e \<Rightarrow> Inl e
      | Inr region \<Rightarrow>
          (case maximum_filter data region of
             Inl e \<Rightarrow> Inl e
           | Inr mx \<Rightarrow>
               Inr \<lparr>nrows = nrows data, ncols = ncols data,
                 val = (\<lambda>i j. val mx i j = val data i j \<and> \<not> val data i j < threshold)\<rparr>))"

section \<open>Labelling (lines 51 and 52)\<close>

text \<open>
  \<^verbatim>\<open>scipy.ndimage.label(local_max)\<close> with its default structuring element, which for a
  two-dimensional input is the cross \<^verbatim>\<open>[[0,1,0],[1,1,1],[0,1,0]]\<close>: two true pixels are
  connected when they share an edge, and pixels that only touch at a corner are not.
  Features are numbered in raster order of their first pixel. The labelled array is
  represented by the list of its features, feature \<open>k\<close> (from 0) being the pixels that
  carry label \<open>k + 1\<close>.
\<close>

definition adjacent :: "pixel \<Rightarrow> pixel \<Rightarrow> bool" where
  "adjacent p q =
     ((fst p = fst q \<and> (snd p = Suc (snd q) \<or> snd q = Suc (snd p))) \<or>
      (snd p = snd q \<and> (fst p = Suc (fst q) \<or> fst q = Suc (fst p))))"

definition touches :: "pixel list \<Rightarrow> pixel \<Rightarrow> bool" where
  "touches feat q = (\<exists>p \<in> set feat. adjacent p q)"

function grow :: "pixel list \<Rightarrow> pixel list \<Rightarrow> pixel list \<times> pixel list" where
  "grow feat rest =
     (if filter (touches feat) rest = [] then (feat, rest)
      else grow (feat @ filter (touches feat) rest) (filter (\<lambda>q. \<not> touches feat q) rest))"
  by pat_completeness auto
termination
proof (relation "measure (\<lambda>(feat, rest). length rest)")
  show "wf (measure (\<lambda>(feat, rest). length rest))"
    by simp
next
  fix feat rest :: "pixel list"
  assume "filter (touches feat) rest \<noteq> []"
  then have "0 < length (filter (touches feat) rest)"
    by (cases "filter (touches feat) rest") simp_all
  moreover have "length (filter (touches feat) rest)
      + length (filter (\<lambda>q. \<not> touches feat q) rest) = length rest"
    by (rule sum_length_filter_compl)
  ultimately have "length (filter (\<lambda>q. \<not> touches feat q) rest) < length rest"
    by linarith
  then show "((feat @ filter (touches feat) rest, filter (\<lambda>q. \<not> touches feat q) rest),
      (feat, rest)) \<in> measure (\<lambda>(feat, rest). length rest)"
    by simp
qed

declare grow.simps [simp del]

lemma grow_rest_length: "length (snd (grow feat rest)) \<le> length rest"
proof (induction feat rest rule: grow.induct)
  case (1 feat rest)
  show ?case
  proof (cases "filter (touches feat) rest = []")
    case True
    then show ?thesis
      by (subst grow.simps) simp
  next
    case False
    have "length (snd (grow feat rest))
        = length (snd (grow (feat @ filter (touches feat) rest)
            (filter (\<lambda>q. \<not> touches feat q) rest)))"
      using False by (subst grow.simps) simp
    also have "\<dots> \<le> length (filter (\<lambda>q. \<not> touches feat q) rest)"
      using "1.IH" [OF False] .
    also have "\<dots> \<le> length rest"
      by simp
    finally show ?thesis .
  qed
qed

function features :: "pixel list \<Rightarrow> pixel list list" where
  "features [] = []"
| "features (p # ps) = fst (grow [p] ps) # features (snd (grow [p] ps))"
  by pat_completeness auto
termination
  by (relation "measure length") (simp_all add: grow_rest_length less_Suc_eq_le)

definition true_pixels :: "bool ndarray \<Rightarrow> pixel list" where
  "true_pixels msk = [(i, j). i \<leftarrow> [0..<nrows msk], j \<leftarrow> [0..<ncols msk], val msk i j]"

definition label :: "bool ndarray \<Rightarrow> pixel list list" where
  "label msk = features (true_pixels msk)"

text \<open>
  \<^verbatim>\<open>scipy.ndimage.find_objects(labeled)\<close>: for each label, in label order, the smallest
  slices (rows, columns) that contain the feature.
\<close>

definition bounding_box :: "pixel list \<Rightarrow> slice \<times> slice" where
  "bounding_box feat =
     (\<lparr>start = Min (set (map fst feat)), stop = Suc (Max (set (map fst feat)))\<rparr>,
      \<lparr>start = Min (set (map snd feat)), stop = Suc (Max (set (map snd feat)))\<rparr>)"

definition find_objects :: "pixel list list \<Rightarrow> (slice \<times> slice) list" where
  "find_objects labeled = map bounding_box labeled"

section \<open>find_peaks (lines 13 to 63)\<close>

text \<open>
  \<^verbatim>\<open>sorted(peaks, key=lambda t: t['amp'], reverse=True)\<close>. On amplitudes that are
  numbers, as all values of this model are, the result is the descending, stable sort
  (peaks of equal amplitude keep their order). What Python's sort does with a NaN key is
  outside the model.
\<close>

definition sorted_by_amp :: "peak list \<Rightarrow> peak list" where
  "sorted_by_amp peaks = sort_key (\<lambda>t. - amp t) peaks"

definition peak_of :: "skymap \<Rightarrow> slice \<times> slice \<Rightarrow> peak" where
  "peak_of input_map s =
     \<lparr>ix = start (snd s), iy = start (fst s),
      skydir = from_pixel input_map (start (snd s)) (start (fst s)),
      amp = val (counts input_map) (start (fst s)) (start (snd s))\<rparr>"

definition find_peaks :: "skymap \<Rightarrow> real \<Rightarrow> real \<Rightarrow> error + peak list" where
  "find_peaks input_map threshold min_separation =
     (case local_max input_map threshold min_separation of
        Inl e \<Rightarrow> Inl e
      | Inr msk \<Rightarrow>
          let slices = find_objects (label msk) in
          Inr (sorted_by_amp (map (peak_of input_map) slices)))"

section \<open>The fitting engine\<close>

text \<open>
  The analysis object \<^verbatim>\<open>gta\<close> is not among the sources; \<^verbatim>\<open>SourceFinder\<close> only calls it.
  It is modelled by the history of the calls made so far, and by what it answers: any
  deterministic engine is a function of that history. A call either raises or is
  appended to the history.
\<close>

datatype pyval = Float real | Str string

type_synonym src_dict = "(string \<times> pyval) list"

datatype event =
    Tsmap string src_dict
  | AddSource string src_dict bool
  | FreeSource string bool
  | Fit

text \<open>The dictionary \<^verbatim>\<open>gta.tsmap\<close> returns, of which the keys
  \<^verbatim>\<open>'sqrt_ts'\<close> and \<^verbatim>\<open>'amplitude'\<close> are read.\<close>

record tsmap_out =
  sqrt_ts :: skymap
  amplitude :: skymap

text \<open>
  \<open>tsmap_result\<close> answers \<^verbatim>\<open>gta.tsmap(name, model=.., make_fits=False, **kwargs)\<close>;
  \<open>raises\<close> says whether \<^verbatim>\<open>add_source\<close>, \<^verbatim>\<open>free_source\<close> or \<^verbatim>\<open>fit\<close> raises;
  \<open>roi\<close> answers \<^verbatim>\<open>gta.roi[name]\<close>. \<open>'s\<close> is the type of a source of the ROI.
\<close>

record 's engine =
  tsmap_result :: "event list \<Rightarrow> string \<Rightarrow> src_dict \<Rightarrow> error + tsmap_out"
  raises :: "event list \<Rightarrow> event \<Rightarrow> error option"
  roi :: "event list \<Rightarrow> string \<Rightarrow> error + 's"

definition call :: "'s engine \<Rightarrow> event list \<Rightarrow> event \<Rightarrow> error + event list" where
  "call gta h ev = (case raises gta h ev of Some e \<Rightarrow> Inl e | None \<Rightarrow> Inr (h @ [ev]))"

definition call_tsmap ::
  "'s engine \<Rightarrow> event list \<Rightarrow> string \<Rightarrow> src_dict \<Rightarrow> error + tsmap_out \<times> event list" where
  "call_tsmap gta h name model =
     (case tsmap_result gta h name model of
        Inl e \<Rightarrow> Inl e
      | Inr m \<Rightarrow> Inr (m, h @ [Tsmap name model]))"

section \<open>SourceFinder (lines 66 to 140)\<close>

text \<open>
  The options, each resolved as \<^verbatim>\<open>kwargs.get(key, self.config[key])\<close>.
\<close>

record config =
  max_iter :: int
  sqrt_ts_threshold :: real
  min_separation :: real
  sources_per_iter :: int

text \<open>\<^verbatim>\<open>'sourcefind_%02i' % iiter\<close>, for the \<open>iiter \<ge> 0\<close> that \<^verbatim>\<open>range\<close> produces.\<close>

function digits :: "nat \<Rightarrow> string" where
  "digits n =
     (if n < 10 then [''0123456789'' ! n]
      else digits (n div 10) @ [''0123456789'' ! (n mod 10)])"
  by pat_completeness auto
termination
  by (relation "measure id") simp_all

declare digits.simps [simp del]

definition tsmap_name :: "nat \<Rightarrow> string" where
  "tsmap_name iiter =
     ''sourcefind_'' @ (if iiter < 10 then ''0'' @ digits iiter else digits iiter)"

text \<open>Line 99: the test source of the TS map.\<close>

definition test_source :: src_dict where
  "test_source =
     [(''Index'', Float 2), (''SpatialModel'', Str ''PointSource''),
      (''Prefactor'', Float (1 / 10 ^ 13))]"

text \<open>\<^verbatim>\<open>peaks[:sources_per_iter]\<close>: a negative bound counts from the end of the list.\<close>

definition py_prefix :: "'a list \<Rightarrow> int \<Rightarrow> 'a list" where
  "py_prefix xs k = (if k < 0 then take (length xs - nat (- k)) xs else take (nat k) xs)"

text \<open>\<^verbatim>\<open>a[i, j]\<close> for non-negative indices: out of range is an \<^verbatim>\<open>IndexError\<close>.\<close>

definition index2 :: "real ndarray \<Rightarrow> nat \<Rightarrow> nat \<Rightarrow> error + real" where
  "index2 a i j = (if i < nrows a \<and> j < ncols a then Inr (val a i j) else Inl IndexError)"

text \<open>Lines 118 to 122: the dictionary of a new source, \<open>a\<close> being
  \<^verbatim>\<open>amp.counts[p['iy'], p['ix']]\<close>.\<close>

definition new_source :: "peak \<Rightarrow> real \<Rightarrow> src_dict" where
  "new_source p a =
     [(''Index'', Float 2), (''Prefactor'', Float (1 / 10 ^ 13 * a)),
      (''SpatialModel'', Str ''PointSource''),
      (''ra'', Float (fst (skydir p))), (''dec'', Float (snd (skydir p)))]"

text \<open>
  Lines 115 to 125. \<open>create_source_name\<close> stands for \<^verbatim>\<open>utils.create_source_name\<close>, which
  is not among the sources: it is a parameter.
  \<open>amp_map\<close> is the map \<^verbatim>\<open>amp = m['amplitude']\<close> of line 112.
\<close>

fun add_sources ::
  "'s engine \<Rightarrow> (skycoord \<Rightarrow> string) \<Rightarrow> skymap \<Rightarrow> peak list \<Rightarrow>
   string list \<times> event list \<Rightarrow> error + string list \<times> event list" where
  "add_sources gta create_source_name amp_map [] (names, h) = Inr (names, h)"
| "add_sources gta create_source_name amp_map (p # ps) (names, h) =
     (case index2 (counts amp_map) (iy p) (ix p) of
        Inl e \<Rightarrow> Inl e
      | Inr a \<Rightarrow>
          (case call gta h (AddSource (create_source_name (skydir p)) (new_source p a) True) of
             Inl e \<Rightarrow> Inl e
           | Inr h' \<Rightarrow>
               add_sources gta create_source_name amp_map ps
                 (names @ [create_source_name (skydir p)], h')))"

text \<open>Lines 127 and 128.\<close>

fun freeze_all :: "'s engine \<Rightarrow> string list \<Rightarrow> event list \<Rightarrow> error + event list" where
  "freeze_all gta [] h = Inr h"
| "freeze_all gta (name # names) h =
     (case call gta h (FreeSource name False) of
        Inl e \<Rightarrow> Inl e
      | Inr h' \<Rightarrow> freeze_all gta names h')"

text \<open>Lines 131 to 134.\<close>

fun refit_all :: "'s engine \<Rightarrow> string list \<Rightarrow> event list \<Rightarrow> error + event list" where
  "refit_all gta [] h = Inr h"
| "refit_all gta (name # names) h =
     (case call gta h (FreeSource name True) of
        Inl e \<Rightarrow> Inl e
      | Inr h1 \<Rightarrow>
          (case call gta h1 Fit of
             Inl e \<Rightarrow> Inl e
           | Inr h2 \<Rightarrow>
               (case call gta h2 (FreeSource name False) of
                  Inl e \<Rightarrow> Inl e
                | Inr h3 \<Rightarrow> refit_all gta names h3)))"

text \<open>Lines 136 to 138.\<close>

fun collect :: "'s engine \<Rightarrow> string list \<Rightarrow> event list \<Rightarrow> error + 's list" where
  "collect gta [] h = Inr []"
| "collect gta (name # names) h =
     (case roi gta h name of
        Inl e \<Rightarrow> Inl e
      | Inr src \<Rightarrow>
          (case collect gta names h of
             Inl e \<Rightarrow> Inl e
           | Inr srcs \<Rightarrow> Inr (src # srcs)))"

text \<open>\<^verbatim>\<open>SourceFinder._iterate\<close> (lines 97 to 140): the sources of the round and the
  history after it.\<close>

definition iterate ::
  "'s engine \<Rightarrow> (skycoord \<Rightarrow> string) \<Rightarrow> config \<Rightarrow> event list \<Rightarrow> nat \<Rightarrow>
   error + 's list \<times> event list" where
  "iterate gta create_source_name cfg h iiter =
     (case call_tsmap gta h (tsmap_name iiter) test_source of
        Inl e \<Rightarrow> Inl e
      | Inr (m, h1) \<Rightarrow>
          (case find_peaks (sqrt_ts m) (sqrt_ts_threshold cfg) (min_separation cfg) of
             Inl e \<Rightarrow> Inl e
           | Inr peaks \<Rightarrow>
               (case add_sources gta create_source_name (amplitude m)
                       (py_prefix peaks (sources_per_iter cfg)) ([], h1) of
                  Inl e \<Rightarrow> Inl e
                | Inr (names, h2) \<Rightarrow>
                    (case freeze_all gta names h2 of
                       Inl e \<Rightarrow> Inl e
                     | Inr h3 \<Rightarrow>
                         (case refit_all gta names h3 of
                            Inl e \<Rightarrow> Inl e
                          | Inr h4 \<Rightarrow>
                              (case collect gta names h4 of
                                 Inl e \<Rightarrow> Inl e
                               | Inr srcs \<Rightarrow> Inr (srcs, h4)))))))"

text \<open>
  \<^verbatim>\<open>SourceFinder.find_sources\<close> (lines 78 to 95): the loop over \<^verbatim>\<open>range(max_iter)\<close>,
  with \<open>acc\<close> the list \<^verbatim>\<open>o['sources']\<close>. The logger call has no effect on the result.
\<close>

fun rounds ::
  "'s engine \<Rightarrow> (skycoord \<Rightarrow> string) \<Rightarrow> config \<Rightarrow> nat list \<Rightarrow>
   's list \<times> event list \<Rightarrow> error + 's list \<times> event list" where
  "rounds gta create_source_name cfg [] (acc, h) = Inr (acc, h)"
| "rounds gta create_source_name cfg (i # is) (acc, h) =
     (case iterate gta create_source_name cfg h i of
        Inl e \<Rightarrow> Inl e
      | Inr (srcs, h') \<Rightarrow>
          if length srcs = 0 then Inr (acc @ srcs, h')
          else rounds gta create_source_name cfg is (acc @ srcs, h'))"

definition find_sources ::
  "'s engine \<Rightarrow> (skycoord \<Rightarrow> string) \<Rightarrow> config \<Rightarrow> event list \<Rightarrow>
   error + 's list \<times> event list" where
  "find_sources gta create_source_name cfg h =
     rounds gta create_source_name cfg [0..<nat (max_iter cfg)] ([], h)"

section \<open>Reading a history\<close>

text \<open>The registration of a promoted peak (line 125), and the refit of one source
  (lines 132 to 134).\<close>

definition add_event :: "(skycoord \<Rightarrow> string) \<Rightarrow> skymap \<Rightarrow> peak \<Rightarrow> event" where
  "add_event create_source_name amp_map p =
     AddSource (create_source_name (skydir p))
       (new_source p (val (counts amp_map) (iy p) (ix p))) True"

definition refit_events :: "string \<Rightarrow> event list" where
  "refit_events name = [FreeSource name True, Fit, FreeSource name False]"

text \<open>A round starts with one call of \<^verbatim>\<open>gta.tsmap\<close>, so the rounds that ran are the
  \<open>Tsmap\<close> events of the history.\<close>

definition is_tsmap :: "event \<Rightarrow> bool" where
  "is_tsmap ev = (case ev of Tsmap _ _ \<Rightarrow> True | _ \<Rightarrow> False)"

definition rounds_run :: "event list \<Rightarrow> nat" where
  "rounds_run h = length (filter is_tsmap h)"

text \<open>The names passed to \<^verbatim>\<open>gta.add_source\<close>, in call order.\<close>

definition added_names :: "event list \<Rightarrow> string list" where
  "added_names h =
     concat (map (\<lambda>ev. case ev of AddSource name _ _ \<Rightarrow> [name] | _ \<Rightarrow> []) h)"

section \<open>Distances and features\<close>


text \<open>
  The angular distance between two peaks is the distance between their sky coordinates.
  The sky is taken flat (the small-angle limit of the great-circle distance): the
  distance of two coordinates is the Euclidean one, in degrees. A WCS is flat when a step
  of one pixel along an axis moves the sky coordinate by that axis's \<^verbatim>\<open>cdelt\<close>.
\<close>

definition sky_distance :: "skycoord \<Rightarrow> skycoord \<Rightarrow> real" where
  "sky_distance a b = sqrt ((fst b - fst a)\<^sup>2 + (snd b - snd a)\<^sup>2)"


definition flat_wcs :: "skymap \<Rightarrow> bool" where
  "flat_wcs input_map \<longleftrightarrow>
     (\<forall>x y x' y'. sky_distance (from_pixel input_map x y) (from_pixel input_map x' y')
        = sqrt ((fst (cdelt input_map) * (real x' - real x))\<^sup>2
              + (snd (cdelt input_map) * (real y' - real y))\<^sup>2))"



text \<open>The origin (row start, column start) of a feature's bounding box.\<close>

definition origin :: "pixel list \<Rightarrow> pixel" where
  "origin feat = (start (fst (bounding_box feat)), start (snd (bounding_box feat)))"

text \<open>
  The footprint as the list of its offsets, and the thresholded mask it gives; the mask is
  written without \<open>Max\<close>: a value is the largest of a window when it is in the window and
  nothing in the window exceeds it.
\<close>

definition offsets_of :: "skymap \<Rightarrow> real \<Rightarrow> (int \<times> int) list" where
  "offsets_of input_map min_sep =
     (case footprint input_map min_sep of Inl e \<Rightarrow> [] | Inr fp \<Rightarrow> footprint_offsets fp)"

definition mask_of :: "real ndarray \<Rightarrow> (int \<times> int) list \<Rightarrow> real \<Rightarrow> bool ndarray" where
  "mask_of data offs threshold =
     \<lparr>nrows = nrows data, ncols = ncols data,
      val = (\<lambda>i j. val data i j \<in> set (window data offs i j)
                \<and> list_all (\<lambda>x. x \<le> val data i j) (window data offs i j)
                \<and> \<not> val data i j < threshold)\<rparr>"

section \<open>Example inputs\<close>

text \<open>Maps with square pixels of one degree (\<^verbatim>\<open>cdelt = [-1, 1]\<close>), whose sky coordinate
  is the pixel itself.\<close>

definition unit_wcs :: "nat \<Rightarrow> nat \<Rightarrow> skycoord" where
  "unit_wcs x y = (real x, real y)"

definition grid_map :: "real list list \<Rightarrow> skymap" where
  "grid_map rs = \<lparr>counts = of_rows rs, cdelt = (- 1, 1), from_pixel = unit_wcs\<rparr>"

definition three_peaks :: skymap where
  "three_peaks = grid_map [[3, 0, 5, 0, 4]]"

definition tie_map :: skymap where
  "tie_map = grid_map [[5, 3, 5]]"

definition corner_map :: skymap where
  "corner_map = grid_map [[0, 5], [5, 5]]"

definition diagonal_map :: skymap where
  "diagonal_map = grid_map [[0, 5], [5, 0]]"

definition quiet_map :: skymap where
  "quiet_map = grid_map [[0, 0, 0]]"

text \<open>A map with pixels of one degree by two degrees.\<close>

definition aniso_map :: skymap where
  "aniso_map =
     \<lparr>counts = of_rows [[5, 0, 4]], cdelt = (- 1, 2),
      from_pixel = (\<lambda>x y. (real x, 2 * real y))\<rparr>"


text \<open>A name generator: the integer parts of the two angles.\<close>

definition pixel_name :: "skycoord \<Rightarrow> string" where
  "pixel_name sky = ''PS'' @ digits (nat \<lfloor>fst sky\<rfloor>) @ ''_'' @ digits (nat \<lfloor>snd sky\<rfloor>)"

text \<open>
  Two engines that never raise and whose ROI returns a source as its name. The first
  answers the first \<^verbatim>\<open>tsmap\<close> with three peaks and every later one with an empty map; the
  second answers every \<^verbatim>\<open>tsmap\<close> with the same three peaks.
\<close>

definition stub_engine :: "string engine" where
  "stub_engine =
     \<lparr>tsmap_result = (\<lambda>h name model.
        if rounds_run h = 0 then Inr \<lparr>sqrt_ts = three_peaks, amplitude = three_peaks\<rparr>
        else Inr \<lparr>sqrt_ts = quiet_map, amplitude = quiet_map\<rparr>),
      raises = (\<lambda>h ev. None),
      roi = (\<lambda>h name. Inr name)\<rparr>"

definition echo_engine :: "string engine" where
  "echo_engine =
     \<lparr>tsmap_result = (\<lambda>h name model. Inr \<lparr>sqrt_ts = three_peaks, amplitude = three_peaks\<rparr>),
      raises = (\<lambda>h ev. None),
      roi = (\<lambda>h name. Inr name)\<rparr>"

definition options :: "int \<Rightarrow> int \<Rightarrow> config" where
  "options n k =
     \<lparr>max_iter = n, sqrt_ts_threshold = 1, min_separation = 1 / 2, sources_per_iter = k\<rparr>"

text \<open>
  The first two peaks of \<open>three_peaks\<close>; the history of a round that promotes the first
  one (as round 0, and again as round 1); the history of a round that promotes both; and an
  engine whose \<^verbatim>\<open>tsmap\<close> raises.
\<close>

definition top_peak :: peak where
  "top_peak = \<lparr>ix = 2, iy = 0, skydir = (2, 0), amp = 5\<rparr>"

definition second_peak :: peak where
  "second_peak = \<lparr>ix = 4, iy = 0, skydir = (4, 0), amp = 4\<rparr>"

definition first_round :: "event list" where
  "first_round =
     [Tsmap ''sourcefind_00'' test_source,
      AddSource ''PS2_0'' (new_source top_peak 5) True,
      FreeSource ''PS2_0'' False,
      FreeSource ''PS2_0'' True, Fit, FreeSource ''PS2_0'' False]"

definition second_round :: "event list" where
  "second_round =
     [Tsmap ''sourcefind_01'' test_source,
      AddSource ''PS2_0'' (new_source top_peak 5) True,
      FreeSource ''PS2_0'' False,
      FreeSource ''PS2_0'' True, Fit, FreeSource ''PS2_0'' False]"

definition round_of_two :: "event list" where
  "round_of_two =
     [Tsmap ''sourcefind_00'' test_source,
      AddSource ''PS2_0'' (new_source top_peak 5) True,
      AddSource ''PS4_0'' (new_source second_peak 4) True,
      FreeSource ''PS2_0'' False, FreeSource ''PS4_0'' False,
      FreeSource ''PS2_0'' True, Fit, FreeSource ''PS2_0'' False,
      FreeSource ''PS4_0'' True, Fit, FreeSource ''PS4_0'' False]"

definition broken_engine :: "string engine" where
  "broken_engine =
     \<lparr>tsmap_result = (\<lambda>h name model. Inl EngineError),
      raises = (\<lambda>h ev. None),
      roi = (\<lambda>h name. Inr name)\<rparr>"

section \<open>Lemmas about find_peaks\<close>

lemma find_peaks_InrD:
  assumes "find_peaks input_map threshold min_sep = Inr ps"
  obtains msk where "local_max input_map threshold min_sep = Inr msk"
    and "ps = sorted_by_amp (map (peak_of input_map) (find_objects (label msk)))"
  using assms by (auto simp: find_peaks_def Let_def split: sum.splits)

lemma sorted_by_amp_nth:
  assumes "i < j" "j < length (sorted_by_amp ps)"
  shows "amp (sorted_by_amp ps ! j) \<le> amp (sorted_by_amp ps ! i)"
proof -
  let ?qs = "sorted_by_amp ps"
  have "sorted (map (\<lambda>t. - amp t) ?qs)"
    unfolding sorted_by_amp_def by (rule sorted_sort_key)
  then have "map (\<lambda>t. - amp t) ?qs ! i \<le> map (\<lambda>t. - amp t) ?qs ! j"
    using assms by (simp add: sorted_iff_nth_mono)
  then show ?thesis
    using assms by simp
qed

lemma set_sorted_by_amp: "set (sorted_by_amp ps) = set ps"
  by (simp add: sorted_by_amp_def)

lemma mset_sorted_by_amp: "mset (sorted_by_amp ps) = mset ps"
  by (simp add: sorted_by_amp_def)

lemma length_sorted_by_amp: "length (sorted_by_amp ps) = length ps"
  by (simp add: sorted_by_amp_def)

lemma peak_of_amp: "amp (peak_of input_map s) = val (counts input_map) (iy (peak_of input_map s)) (ix (peak_of input_map s))"
  by (simp add: peak_of_def)

lemma find_peaks_amp:
  assumes "find_peaks input_map threshold min_sep = Inr ps" "p \<in> set ps"
  shows "amp p = val (counts input_map) (iy p) (ix p)"
proof -
  from assms(1) obtain msk where
    ps: "ps = sorted_by_amp (map (peak_of input_map) (find_objects (label msk)))"
    by (rule find_peaks_InrD)
  with assms(2) obtain s where "p = peak_of input_map s"
    by (auto simp: set_sorted_by_amp)
  then show ?thesis
    by (simp add: peak_of_amp)
qed

lemma reflect_inside: "i < n \<Longrightarrow> reflect n (int i) = i"
  by (simp add: reflect_def Let_def)

lemma in_footprint_offsets:
  "(dy, dx) \<in> set (footprint_offsets fp) \<longleftrightarrow>
     (\<exists>a < nrows fp. \<exists>b < ncols fp. val fp a b
        \<and> dy = int a - int (nrows fp div 2) \<and> dx = int b - int (ncols fp div 2))"
  by (auto simp: footprint_offsets_def)

lemma in_true_pixels:
  "(i, j) \<in> set (true_pixels msk) \<longleftrightarrow> i < nrows msk \<and> j < ncols msk \<and> val msk i j"
  by (auto simp: true_pixels_def)

lemma footprint_shape:
  assumes "0 < max_cdelt input_map" "0 < s" "footprint input_map s = Inr fp"
  defines "r \<equiv> \<lfloor>s / max_cdelt input_map\<rfloor>"
  shows "nrows fp = nat (2 * r + 3)" "ncols fp = nat (2 * r + 3)"
    "val fp a b = (sqrt ((real b - real_of_int (r + 1))\<^sup>2 + (real a - real_of_int (r + 1))\<^sup>2)
        * max_cdelt input_map < s)"
proof -
  have q: "0 \<le> s / max_cdelt input_map"
    using assms(1,2) by simp
  then have r0: "0 \<le> r"
    unfolding r_def by simp
  have fp: "fp = \<lparr>nrows = nat (r * 2 + 3), ncols = nat (r * 2 + 3),
      val = (\<lambda>a b. sqrt ((real b - (real_of_int (r * 2 + 3) - 1) / 2)\<^sup>2
                       + (real a - (real_of_int (r * 2 + 3) - 1) / 2)\<^sup>2)
                 * max_cdelt input_map < s)\<rparr>"
    using assms(1,3) q r0
    by (simp add: footprint_def py_int_def make_pixel_offset_def Let_def r_def split: if_splits)
  have c: "(real_of_int (r * 2 + 3) - 1) / 2 = real_of_int (r + 1)"
    by simp
  show "nrows fp = nat (2 * r + 3)" "ncols fp = nat (2 * r + 3)"
    by (simp_all add: fp mult.commute)
  show "val fp a b = (sqrt ((real b - real_of_int (r + 1))\<^sup>2 + (real a - real_of_int (r + 1))\<^sup>2)
        * max_cdelt input_map < s)"
    by (simp only: fp c ndarray.simps)
qed

lemma abs_le_sqrt_squares: "\<bar>real_of_int x\<bar> \<le> sqrt (real_of_int (x * x + y * y))"
proof -
  have "\<bar>real_of_int x\<bar> = sqrt ((real_of_int x)\<^sup>2)"
    by simp
  also have "\<dots> \<le> sqrt (real_of_int (x * x + y * y))"
    by (simp add: power2_eq_square del: real_sqrt_abs real_sqrt_abs2)
  finally show ?thesis .
qed

lemma offset_in_footprint:
  assumes c: "0 < max_cdelt input_map" and fp: "footprint input_map s = Inr fp"
    and near: "sqrt (real_of_int (dx * dx + dy * dy)) * max_cdelt input_map < s"
  shows "(dy, dx) \<in> set (footprint_offsets fp)"
proof -
  define r where "r = \<lfloor>s / max_cdelt input_map\<rfloor>"
  have "0 \<le> sqrt (real_of_int (dx * dx + dy * dy)) * max_cdelt input_map"
    using c by simp
  with near have s: "0 < s"
    by linarith
  note shape = footprint_shape [OF c s fp, folded r_def]
  have bound: "\<bar>z\<bar> \<le> r" if "\<bar>real_of_int z\<bar> \<le> sqrt (real_of_int (dx * dx + dy * dy))" for z
  proof -
    have "\<bar>real_of_int z\<bar> * max_cdelt input_map
        \<le> sqrt (real_of_int (dx * dx + dy * dy)) * max_cdelt input_map"
      using that c by (simp add: mult_right_mono)
    with near have "\<bar>real_of_int z\<bar> * max_cdelt input_map < s"
      by linarith
    then have "real_of_int \<bar>z\<bar> < s / max_cdelt input_map"
      using c by (simp add: pos_less_divide_eq)
    then have "real_of_int \<bar>z\<bar> \<le> s / max_cdelt input_map"
      by simp
    then show ?thesis
      unfolding r_def by (simp only: le_floor_iff)
  qed
  have dx: "\<bar>dx\<bar> \<le> r"
    by (rule bound) (rule abs_le_sqrt_squares)
  have dy: "\<bar>dy\<bar> \<le> r"
    using abs_le_sqrt_squares [of dy dx] by (intro bound) (simp only: add.commute [of "dx * dx"])
  let ?a = "nat (dy + r + 1)" and ?b = "nat (dx + r + 1)"
  have r0: "0 \<le> r"
    using dx by linarith
  have half: "int (nat (2 * r + 3) div 2) = r + 1"
    using r0 by (simp add: zdiv_int)
  have a1: "?a < nrows fp"
    unfolding shape using dy r0 by linarith
  have a2: "dy = int ?a - int (nrows fp div 2)"
    unfolding shape half using dy r0 by linarith
  have b1: "?b < ncols fp"
    unfolding shape using dx r0 by linarith
  have b2: "dx = int ?b - int (ncols fp div 2)"
    unfolding shape half using dx r0 by linarith
  have ra: "real ?a - real_of_int (r + 1) = real_of_int dy"
    using dy by simp
  have rb: "real ?b - real_of_int (r + 1) = real_of_int dx"
    using dx by simp
  have "val fp ?a ?b"
    using near by (simp only: shape ra rb) (simp add: power2_eq_square)
  with a1 a2 b1 b2 show ?thesis
    unfolding in_footprint_offsets by blast
qed

lemma local_max_InrD:
  assumes "local_max input_map threshold s = Inr msk"
  obtains fp where "footprint input_map s = Inr fp" "footprint_offsets fp \<noteq> []"
    "nrows msk = nrows (counts input_map)" "ncols msk = ncols (counts input_map)"
    "\<And>i j. val msk i j \<longleftrightarrow>
       Max (set (window (counts input_map) (footprint_offsets fp) i j)) = val (counts input_map) i j
       \<and> \<not> val (counts input_map) i j < threshold"
  using assms
  by (auto simp: local_max_def maximum_filter_def Let_def split: sum.splits if_splits)

lemma local_max_threshold:
  assumes "local_max input_map threshold s = Inr msk" "val msk i j"
  shows "threshold \<le> val (counts input_map) i j"
  using assms by (elim local_max_InrD) simp

lemma local_max_dominates:
  assumes lm: "local_max input_map threshold s = Inr msk"
    and c: "0 < max_cdelt input_map"
    and p: "val msk i j" "i < nrows (counts input_map)" "j < ncols (counts input_map)"
    and q: "k < nrows (counts input_map)" "l < ncols (counts input_map)"
    and near: "sqrt (real_of_int ((int l - int j) * (int l - int j)
                 + (int k - int i) * (int k - int i))) * max_cdelt input_map < s"
  shows "val (counts input_map) k l \<le> val (counts input_map) i j"
  using lm
proof (rule local_max_InrD)
  fix fp
  assume fp: "footprint input_map s = Inr fp"
    and mx: "\<And>i j. val msk i j \<longleftrightarrow>
       Max (set (window (counts input_map) (footprint_offsets fp) i j)) = val (counts input_map) i j
       \<and> \<not> val (counts input_map) i j < threshold"
  have "(int k - int i, int l - int j) \<in> set (footprint_offsets fp)"
    using c fp near by (rule offset_in_footprint)
  then have "val (counts input_map) (reflect (nrows (counts input_map)) (int i + (int k - int i)))
      (reflect (ncols (counts input_map)) (int j + (int l - int j)))
      \<in> set (window (counts input_map) (footprint_offsets fp) i j)"
    unfolding window_def by force
  then have "val (counts input_map) k l \<in> set (window (counts input_map) (footprint_offsets fp) i j)"
    using q by (simp add: reflect_inside)
  then have "val (counts input_map) k l \<le> Max (set (window (counts input_map) (footprint_offsets fp) i j))"
    by simp
  with mx p(1) show ?thesis
    by simp
qed

lemma grow_mset: "mset (fst (grow feat rest)) + mset (snd (grow feat rest)) = mset feat + mset rest"
proof (induction feat rest rule: grow.induct)
  case (1 feat rest)
  show ?case
  proof (cases "filter (touches feat) rest = []")
    case True
    then show ?thesis
      by (subst (1 2) grow.simps) simp
  next
    case False
    have "mset (fst (grow feat rest)) + mset (snd (grow feat rest))
      = mset (feat @ filter (touches feat) rest) + mset (filter (\<lambda>q. \<not> touches feat q) rest)"
      using False "1.IH" by (subst (1 2) grow.simps) simp
    then show ?thesis
      by simp
  qed
qed

lemma grow_set: "set (fst (grow feat rest)) \<union> set (snd (grow feat rest)) = set feat \<union> set rest"
  using arg_cong [OF grow_mset, of set_mset feat rest] by simp

lemma grow_hd: "feat \<noteq> [] \<Longrightarrow> hd (fst (grow feat rest)) = hd feat \<and> fst (grow feat rest) \<noteq> []"
proof (induction feat rest rule: grow.induct)
  case (1 feat rest)
  show ?case
  proof (cases "filter (touches feat) rest = []")
    case True
    then show ?thesis
      using "1.prems" by (subst (1 2) grow.simps) simp
  next
    case False
    then show ?thesis
      using "1.IH" "1.prems" by (subst (1 2) grow.simps) simp
  qed
qed



lemma features_nonempty: "f \<in> set (features xs) \<Longrightarrow> f \<noteq> []"
proof (induction xs arbitrary: f rule: features.induct)
  case 1
  then show ?case by simp
next
  case (2 p ps)
  then show ?case
    using grow_hd [of "[p]" ps] by auto
qed

lemma call_InrD: "call gta h ev = Inr h' \<Longrightarrow> h' = h @ [ev]"
  by (simp add: call_def split: option.splits)

lemma add_sources_InrD:
  "add_sources gta csn amp_map ps (names, h) = Inr (names', h') \<Longrightarrow>
     names' = names @ map (\<lambda>p. csn (skydir p)) ps \<and> h' = h @ map (add_event csn amp_map) ps"
proof (induction ps arbitrary: names h)
  case Nil
  then show ?case by simp
next
  case (Cons p ps)
  from Cons.prems obtain a h1 where
    a: "index2 (counts amp_map) (iy p) (ix p) = Inr a"
    and h1: "call gta h (AddSource (csn (skydir p)) (new_source p a) True) = Inr h1"
    and rest: "add_sources gta csn amp_map ps (names @ [csn (skydir p)], h1) = Inr (names', h')"
    by (auto split: sum.splits)
  from a have "a = val (counts amp_map) (iy p) (ix p)"
    by (simp add: index2_def split: if_splits)
  with h1 have "h1 = h @ [add_event csn amp_map p]"
    by (simp add: add_event_def call_InrD)
  with Cons.IH [OF rest] show ?case
    by simp
qed

lemma freeze_all_InrD:
  "freeze_all gta names h = Inr h' \<Longrightarrow> h' = h @ map (\<lambda>name. FreeSource name False) names"
proof (induction names arbitrary: h)
  case Nil
  then show ?case by simp
next
  case (Cons name names)
  from Cons.prems obtain h1 where
    h1: "call gta h (FreeSource name False) = Inr h1"
    and rest: "freeze_all gta names h1 = Inr h'"
    by (auto split: sum.splits)
  from Cons.IH [OF rest] call_InrD [OF h1] show ?case
    by simp
qed

lemma refit_all_InrD:
  "refit_all gta names h = Inr h' \<Longrightarrow> h' = h @ concat (map refit_events names)"
proof (induction names arbitrary: h)
  case Nil
  then show ?case by simp
next
  case (Cons name names)
  from Cons.prems obtain h1 h2 h3 where
    h1: "call gta h (FreeSource name True) = Inr h1"
    and h2: "call gta h1 Fit = Inr h2"
    and h3: "call gta h2 (FreeSource name False) = Inr h3"
    and rest: "refit_all gta names h3 = Inr h'"
    by (auto split: sum.splits)
  from Cons.IH [OF rest] call_InrD [OF h1] call_InrD [OF h2] call_InrD [OF h3] show ?case
    by (simp add: refit_events_def)
qed

lemma collect_length: "collect gta names h = Inr srcs \<Longrightarrow> length srcs = length names"
  by (induction names arbitrary: srcs) (auto split: sum.splits)

lemma iterate_InrD:
  assumes "iterate gta csn cfg h iiter = Inr (srcs, h')"
  obtains m peaks where
    "tsmap_result gta h (tsmap_name iiter) test_source = Inr m"
    "find_peaks (sqrt_ts m) (sqrt_ts_threshold cfg) (min_separation cfg) = Inr peaks"
    "length srcs = length (py_prefix peaks (sources_per_iter cfg))"
    "h' = h @ [Tsmap (tsmap_name iiter) test_source]
        @ map (add_event csn (amplitude m)) (py_prefix peaks (sources_per_iter cfg))
        @ map (\<lambda>name. FreeSource name False)
            (map (\<lambda>p. csn (skydir p)) (py_prefix peaks (sources_per_iter cfg)))
        @ concat (map refit_events
            (map (\<lambda>p. csn (skydir p)) (py_prefix peaks (sources_per_iter cfg))))"
proof -
  from assms obtain m h1 peaks names h2 h3 where
    ts: "call_tsmap gta h (tsmap_name iiter) test_source = Inr (m, h1)"
    and pk: "find_peaks (sqrt_ts m) (sqrt_ts_threshold cfg) (min_separation cfg) = Inr peaks"
    and ad: "add_sources gta csn (amplitude m) (py_prefix peaks (sources_per_iter cfg)) ([], h1)
        = Inr (names, h2)"
    and fr: "freeze_all gta names h2 = Inr h3"
    and rf: "refit_all gta names h3 = Inr h'"
    and co: "collect gta names h' = Inr srcs"
    unfolding iterate_def by (auto split: sum.splits prod.splits)
  from ts have m: "tsmap_result gta h (tsmap_name iiter) test_source = Inr m"
    and h1: "h1 = h @ [Tsmap (tsmap_name iiter) test_source]"
    by (auto simp: call_tsmap_def split: sum.splits)
  from add_sources_InrD [OF ad]
  have names: "names = map (\<lambda>p. csn (skydir p)) (py_prefix peaks (sources_per_iter cfg))"
    and h2: "h2 = h1 @ map (add_event csn (amplitude m)) (py_prefix peaks (sources_per_iter cfg))"
    by simp_all
  from freeze_all_InrD [OF fr] have h3: "h3 = h2 @ map (\<lambda>name. FreeSource name False) names" .
  from refit_all_InrD [OF rf] have h4: "h' = h3 @ concat (map refit_events names)" .
  from collect_length [OF co] have "length srcs = length (py_prefix peaks (sources_per_iter cfg))"
    by (simp add: names)
  with m pk show thesis
    by (rule that) (simp add: h4 h3 h2 h1 names)
qed

lemma rounds_run_append: "rounds_run (h @ h') = rounds_run h + rounds_run h'"
  by (simp add: rounds_run_def)

lemma rounds_run_Cons: "rounds_run (ev # h) = (if is_tsmap ev then Suc (rounds_run h) else rounds_run h)"
  by (simp add: rounds_run_def)

lemma rounds_run_adds: "rounds_run (map (add_event csn amp_map) ps) = 0"
  by (induction ps) (simp_all add: rounds_run_def is_tsmap_def add_event_def)

lemma rounds_run_freezes: "rounds_run (map (\<lambda>name. FreeSource name False) names) = 0"
  by (induction names) (simp_all add: rounds_run_def is_tsmap_def)

lemma rounds_run_refits: "rounds_run (concat (map refit_events names)) = 0"
  by (induction names) (simp_all add: rounds_run_def is_tsmap_def refit_events_def)

lemma iterate_rounds_run:
  assumes "iterate gta csn cfg h iiter = Inr (srcs, h')"
  shows "rounds_run h' = Suc (rounds_run h)"
  using assms
proof (rule iterate_InrD)
  fix m peaks
  assume "h' = h @ [Tsmap (tsmap_name iiter) test_source]
        @ map (add_event csn (amplitude m)) (py_prefix peaks (sources_per_iter cfg))
        @ map (\<lambda>name. FreeSource name False)
            (map (\<lambda>p. csn (skydir p)) (py_prefix peaks (sources_per_iter cfg)))
        @ concat (map refit_events
            (map (\<lambda>p. csn (skydir p)) (py_prefix peaks (sources_per_iter cfg))))"
  then show ?thesis
    by (simp only: rounds_run_append rounds_run_adds rounds_run_freezes rounds_run_refits
          rounds_run_Cons) (simp add: is_tsmap_def rounds_run_def)
qed

lemma rounds_bound:
  "rounds gta csn cfg is (acc, h) = Inr (out, h') \<Longrightarrow> rounds_run h' \<le> rounds_run h + length is"
proof (induction "is" arbitrary: acc h)
  case Nil
  then show ?case by simp
next
  case (Cons i "is")
  from Cons.prems obtain srcs h1 where
    it: "iterate gta csn cfg h i = Inr (srcs, h1)"
    and rest: "if length srcs = 0 then (out, h') = (acc @ srcs, h1)
               else rounds gta csn cfg is (acc @ srcs, h1) = Inr (out, h')"
    by (auto split: sum.splits prod.splits if_splits)
  have one: "rounds_run h1 = Suc (rounds_run h)"
    using it by (rule iterate_rounds_run)
  show ?case
  proof (cases "length srcs = 0")
    case True
    with rest one show ?thesis by simp
  next
    case False
    with rest have "rounds gta csn cfg is (acc @ srcs, h1) = Inr (out, h')"
      by simp
    from Cons.IH [OF this] one show ?thesis
      by simp
  qed
qed

lemma sqrt_scaled_less:
  assumes "0 < c" "0 < s" "0 \<le> x"
  shows "(sqrt x * c < s) = (x * (c * c) < s * s)"
proof -
  have "(sqrt x * c < s) = (sqrt x < s / c)"
    using assms by (simp add: pos_less_divide_eq)
  also have "\<dots> = (sqrt x < sqrt ((s / c)\<^sup>2))"
    using assms by simp
  also have "\<dots> = (x < (s / c)\<^sup>2)"
    by (rule real_sqrt_less_iff)
  also have "\<dots> = (x * (c * c) < s * s)"
    using assms by (simp add: power2_eq_square pos_less_divide_eq)
  finally show ?thesis .
qed

lemma sqrt_times_less:
  assumes "0 \<le> x"
  shows "(sqrt x * c < s) =
     (if 0 < c then 0 < s \<and> x * (c * c) < s * s
      else if c = 0 then 0 < s
      else 0 < s \<or> s * s < x * (c * c))"
proof -
  consider "0 < c" "0 < s" | "0 < c" "s \<le> 0" | "c = 0" | "c < 0" "0 < s" | "c < 0" "s \<le> 0"
    by linarith
  then show ?thesis
  proof cases
    case 1
    then show ?thesis
      using assms by (simp add: sqrt_scaled_less)
  next
    case 2
    have "0 \<le> sqrt x * c"
      using assms 2 by simp
    with 2 show ?thesis
      by auto
  next
    case 3
    then show ?thesis by simp
  next
    case 4
    have "sqrt x * c \<le> 0"
      using assms 4 by (simp add: mult_nonneg_nonpos)
    with 4 show ?thesis
      by auto
  next
    case 5
    show ?thesis
    proof (cases "s = 0")
      case True
      have "(sqrt x * c < 0) = (0 < x)"
        using 5 assms by (simp add: mult_less_0_iff)
      also have "\<dots> = (0 < x * (c * c))"
        using 5 by (simp add: zero_less_mult_iff)
      finally show ?thesis
        using 5 True by simp
    next
      case False
      with 5 have s: "0 < - s" and c: "0 < - c"
        by simp_all
      have "(sqrt x * c < s) = (- s < sqrt x * (- c))"
        by simp
      also have "\<dots> = (- s / - c < sqrt x)"
        using c by (simp only: pos_divide_less_eq)
      also have "\<dots> = (sqrt ((- s / - c)\<^sup>2) < sqrt x)"
        using s c by simp
      also have "\<dots> = ((- s / - c)\<^sup>2 < x)"
        by (rule real_sqrt_less_iff)
      also have "\<dots> = (s * s < x * (c * c))"
      proof -
        have "0 < c * c"
          using c by (simp add: zero_less_mult_iff)
        then show ?thesis
          by (simp add: power2_eq_square pos_divide_less_eq)
      qed
      finally show ?thesis
        using 5 by simp
    qed
  qed
qed

lemma footprint_code [code]:
  "footprint input_map min_sep =
     (let c = max_cdelt input_map in
      if c = 0 then Inl OverflowError
      else
        let npix = py_int (min_sep / c) * 2 + 3 in
        if npix < 0 then Inl ValueError
        else Inr \<lparr>nrows = nat npix, ncols = nat npix,
          val = (\<lambda>a b.
            let x = (real b - (real_of_int npix - 1) / 2)\<^sup>2
                  + (real a - (real_of_int npix - 1) / 2)\<^sup>2 in
            if 0 < c then 0 < min_sep \<and> x * (c * c) < min_sep * min_sep
            else 0 < min_sep \<or> min_sep * min_sep < x * (c * c))\<rparr>)"
  by (simp add: footprint_def make_pixel_offset_def Let_def sqrt_times_less)

section \<open>Evaluating find_peaks on an example\<close>

lemma local_max_by_offsets:
  assumes "offsets_of input_map min_sep = offs" "offs \<noteq> []"
  shows "local_max input_map threshold min_sep = Inr (mask_of (counts input_map) offs threshold)"
proof (cases "footprint input_map min_sep")
  case (Inl e)
  with assms show ?thesis
    by (simp add: offsets_of_def)
next
  case (Inr fp)
  with assms have offs: "footprint_offsets fp = offs"
    by (simp add: offsets_of_def)
  have "(Max (set (window (counts input_map) offs i j)) = v)
      = (v \<in> set (window (counts input_map) offs i j)
          \<and> list_all (\<lambda>x. x \<le> v) (window (counts input_map) offs i j))" for i j v
    using assms(2) by (simp add: window_def Max_eq_iff list_all_iff)
  then show ?thesis
    using assms(2) by (simp add: local_max_def maximum_filter_def mask_of_def Let_def Inr offs)
qed

lemma find_peaks_eval:
  assumes "offsets_of input_map min_sep = offs" "offs \<noteq> []"
    and "true_pixels (mask_of (counts input_map) offs threshold) = px"
    and "sorted_by_amp (map (peak_of input_map) (find_objects (features px))) = ps"
  shows "find_peaks input_map threshold min_sep = Inr ps"
  using assms local_max_by_offsets [OF assms(1,2), of threshold]
  by (simp add: find_peaks_def label_def)

lemma offsets_half: "offsets_of (grid_map rs) (1 / 2) = [(0, 0)]"
  by code_simp



lemma three_peaks_half:
  "find_peaks three_peaks 1 (1 / 2) =
     Inr [\<lparr>ix = 2, iy = 0, skydir = (2, 0), amp = 5\<rparr>,
          \<lparr>ix = 4, iy = 0, skydir = (4, 0), amp = 4\<rparr>,
          \<lparr>ix = 0, iy = 0, skydir = (0, 0), amp = 3\<rparr>]"
proof (rule find_peaks_eval [where offs = "[(0, 0)]" and px = "[(0, 0), (0, 2), (0, 4)]"])
  show "offsets_of three_peaks (1 / 2) = [(0, 0)]"
    unfolding three_peaks_def by (rule offsets_half)
  show "[(0, 0)] \<noteq> ([] :: (int \<times> int) list)"
    by simp
  show "true_pixels (mask_of (counts three_peaks) [(0, 0)] 1) = [(0, 0), (0, 2), (0, 4)]"
    by code_simp
  show "sorted_by_amp (map (peak_of three_peaks) (find_objects (features [(0, 0), (0, 2), (0, 4)])))
      = [\<lparr>ix = 2, iy = 0, skydir = (2, 0), amp = 5\<rparr>,
         \<lparr>ix = 4, iy = 0, skydir = (4, 0), amp = 4\<rparr>,
         \<lparr>ix = 0, iy = 0, skydir = (0, 0), amp = 3\<rparr>]"
    by code_simp
qed

lemma find_peaks_by_features:
  assumes "local_max input_map threshold min_sep = Inr msk" "true_pixels msk = px"
    and "features px = fs"
    and "sorted_by_amp (map (peak_of input_map) (find_objects fs)) = ps"
  shows "find_peaks input_map threshold min_sep = Inr ps" and "label msk = fs"
  using assms by (simp_all add: find_peaks_def label_def)

lemma offsets_wide:
  "offsets_of (grid_map rs) (3 / 2) =
     [(-1, -1), (-1, 0), (-1, 1), (0, -1), (0, 0), (0, 1), (1, -1), (1, 0), (1, 1)]"
  by code_simp

lemma offsets_far:
  "offsets_of (grid_map rs) (5 / 2) =
     [(-2, -1), (-2, 0), (-2, 1), (-1, -2), (-1, -1), (-1, 0), (-1, 1), (-1, 2),
      (0, -2), (0, -1), (0, 0), (0, 1), (0, 2),
      (1, -2), (1, -1), (1, 0), (1, 1), (1, 2), (2, -1), (2, 0), (2, 1)]"
  by code_simp

lemma corner_mask:
  "local_max corner_map 3 (1 / 2) = Inr (mask_of (counts corner_map) [(0, 0)] 3)"
  "true_pixels (mask_of (counts corner_map) [(0, 0)] 3) = [(0, 1), (1, 0), (1, 1)]"
  "features [(0, 1), (1, 0), (1, 1)] = [[(0, 1), (1, 1), (1, 0)]]"
  "\<not> val (mask_of (counts corner_map) [(0, 0)] 3) 0 0"
proof -
  have "offsets_of corner_map (1 / 2) = [(0, 0)]"
    unfolding corner_map_def by (rule offsets_half)
  then show "local_max corner_map 3 (1 / 2) = Inr (mask_of (counts corner_map) [(0, 0)] 3)"
    by (rule local_max_by_offsets) simp
  show "true_pixels (mask_of (counts corner_map) [(0, 0)] 3) = [(0, 1), (1, 0), (1, 1)]"
    by code_simp
  show "features [(0, 1), (1, 0), (1, 1)] = [[(0, 1), (1, 1), (1, 0)]]"
    by code_simp
  show "\<not> val (mask_of (counts corner_map) [(0, 0)] 3) 0 0"
    by code_simp
qed

lemma corner_peaks:
  "find_peaks corner_map 3 (1 / 2) = Inr [\<lparr>ix = 0, iy = 0, skydir = (0, 0), amp = 0\<rparr>]"
proof -
  have "sorted_by_amp (map (peak_of corner_map) (find_objects [[(0, 1), (1, 1), (1, 0)]]))
      = [\<lparr>ix = 0, iy = 0, skydir = (0, 0), amp = 0\<rparr>]"
    by code_simp
  with corner_mask(1-3) show ?thesis
    by (rule find_peaks_by_features)
qed

lemma diagonal_mask:
  "local_max diagonal_map 3 (1 / 2) = Inr (mask_of (counts diagonal_map) [(0, 0)] 3)"
  "true_pixels (mask_of (counts diagonal_map) [(0, 0)] 3) = [(0, 1), (1, 0)]"
  "features [(0, 1), (1, 0)] = [[(0, 1)], [(1, 0)]]"
proof -
  have "offsets_of diagonal_map (1 / 2) = [(0, 0)]"
    unfolding diagonal_map_def by (rule offsets_half)
  then show "local_max diagonal_map 3 (1 / 2) = Inr (mask_of (counts diagonal_map) [(0, 0)] 3)"
    by (rule local_max_by_offsets) simp
  show "true_pixels (mask_of (counts diagonal_map) [(0, 0)] 3) = [(0, 1), (1, 0)]"
    by code_simp
  show "features [(0, 1), (1, 0)] = [[(0, 1)], [(1, 0)]]"
    by code_simp
qed

lemma diagonal_peaks:
  "find_peaks diagonal_map 3 (1 / 2) =
     Inr [\<lparr>ix = 1, iy = 0, skydir = (1, 0), amp = 5\<rparr>,
          \<lparr>ix = 0, iy = 1, skydir = (0, 1), amp = 5\<rparr>]"
proof -
  have "sorted_by_amp (map (peak_of diagonal_map) (find_objects [[(0, 1)], [(1, 0)]]))
      = [\<lparr>ix = 1, iy = 0, skydir = (1, 0), amp = 5\<rparr>,
         \<lparr>ix = 0, iy = 1, skydir = (0, 1), amp = 5\<rparr>]"
    by code_simp
  with diagonal_mask show ?thesis
    by (rule find_peaks_by_features)
qed

lemma origin_simps: "origin feat = (Min (set (map fst feat)), Min (set (map snd feat)))"
  by (simp add: origin_def bounding_box_def)

lemma peak_of_origin: "(iy (peak_of input_map (bounding_box feat)), ix (peak_of input_map (bounding_box feat))) = origin feat"
  by (simp add: origin_def peak_of_def)




lemma three_peaks_wide_mask:
  "local_max three_peaks 1 (3 / 2) = Inr (mask_of (counts three_peaks)
     [(-1, -1), (-1, 0), (-1, 1), (0, -1), (0, 0), (0, 1), (1, -1), (1, 0), (1, 1)] 1)"
  "true_pixels (mask_of (counts three_peaks)
     [(-1, -1), (-1, 0), (-1, 1), (0, -1), (0, 0), (0, 1), (1, -1), (1, 0), (1, 1)] 1)
     = [(0, 0), (0, 2), (0, 4)]"
  "features [(0, 0), (0, 2), (0, 4)] = [[(0, 0)], [(0, 2)], [(0, 4)]]"
proof -
  have "offsets_of three_peaks (3 / 2)
      = [(-1, -1), (-1, 0), (-1, 1), (0, -1), (0, 0), (0, 1), (1, -1), (1, 0), (1, 1)]"
    unfolding three_peaks_def by (rule offsets_wide)
  then show "local_max three_peaks 1 (3 / 2) = Inr (mask_of (counts three_peaks)
     [(-1, -1), (-1, 0), (-1, 1), (0, -1), (0, 0), (0, 1), (1, -1), (1, 0), (1, 1)] 1)"
    by (rule local_max_by_offsets) simp
  show "true_pixels (mask_of (counts three_peaks)
     [(-1, -1), (-1, 0), (-1, 1), (0, -1), (0, 0), (0, 1), (1, -1), (1, 0), (1, 1)] 1)
     = [(0, 0), (0, 2), (0, 4)]"
    by code_simp
  show "features [(0, 0), (0, 2), (0, 4)] = [[(0, 0)], [(0, 2)], [(0, 4)]]"
    by code_simp
qed

lemma three_peaks_wide:
  "find_peaks three_peaks 1 (3 / 2) =
     Inr [\<lparr>ix = 2, iy = 0, skydir = (2, 0), amp = 5\<rparr>,
          \<lparr>ix = 4, iy = 0, skydir = (4, 0), amp = 4\<rparr>,
          \<lparr>ix = 0, iy = 0, skydir = (0, 0), amp = 3\<rparr>]"
proof -
  have "sorted_by_amp (map (peak_of three_peaks) (find_objects [[(0, 0)], [(0, 2)], [(0, 4)]]))
      = [\<lparr>ix = 2, iy = 0, skydir = (2, 0), amp = 5\<rparr>,
         \<lparr>ix = 4, iy = 0, skydir = (4, 0), amp = 4\<rparr>,
         \<lparr>ix = 0, iy = 0, skydir = (0, 0), amp = 3\<rparr>]"
    by code_simp
  with three_peaks_wide_mask show ?thesis
    by (rule find_peaks_by_features)
qed

lemma max_cdelt_grid_map: "max_cdelt (grid_map rs) = 1"
  by (simp add: max_cdelt_def grid_map_def)

lemma tie_far_mask:
  "local_max tie_map 4 (5 / 2) = Inr (mask_of (counts tie_map)
     [(-2, -1), (-2, 0), (-2, 1), (-1, -2), (-1, -1), (-1, 0), (-1, 1), (-1, 2),
      (0, -2), (0, -1), (0, 0), (0, 1), (0, 2),
      (1, -2), (1, -1), (1, 0), (1, 1), (1, 2), (2, -1), (2, 0), (2, 1)] 4)"
  "true_pixels (mask_of (counts tie_map)
     [(-2, -1), (-2, 0), (-2, 1), (-1, -2), (-1, -1), (-1, 0), (-1, 1), (-1, 2),
      (0, -2), (0, -1), (0, 0), (0, 1), (0, 2),
      (1, -2), (1, -1), (1, 0), (1, 1), (1, 2), (2, -1), (2, 0), (2, 1)] 4)
     = [(0, 0), (0, 2)]"
  "features [(0, 0), (0, 2)] = [[(0, 0)], [(0, 2)]]"
proof -
  have "offsets_of tie_map (5 / 2)
      = [(-2, -1), (-2, 0), (-2, 1), (-1, -2), (-1, -1), (-1, 0), (-1, 1), (-1, 2),
      (0, -2), (0, -1), (0, 0), (0, 1), (0, 2),
      (1, -2), (1, -1), (1, 0), (1, 1), (1, 2), (2, -1), (2, 0), (2, 1)]"
    unfolding tie_map_def by (rule offsets_far)
  then show "local_max tie_map 4 (5 / 2) = Inr (mask_of (counts tie_map)
     [(-2, -1), (-2, 0), (-2, 1), (-1, -2), (-1, -1), (-1, 0), (-1, 1), (-1, 2),
      (0, -2), (0, -1), (0, 0), (0, 1), (0, 2),
      (1, -2), (1, -1), (1, 0), (1, 1), (1, 2), (2, -1), (2, 0), (2, 1)] 4)"
    by (rule local_max_by_offsets) simp
  show "true_pixels (mask_of (counts tie_map)
     [(-2, -1), (-2, 0), (-2, 1), (-1, -2), (-1, -1), (-1, 0), (-1, 1), (-1, 2),
      (0, -2), (0, -1), (0, 0), (0, 1), (0, 2),
      (1, -2), (1, -1), (1, 0), (1, 1), (1, 2), (2, -1), (2, 0), (2, 1)] 4)
     = [(0, 0), (0, 2)]"
    by code_simp
  show "features [(0, 0), (0, 2)] = [[(0, 0)], [(0, 2)]]"
    by code_simp
qed

lemma tie_peaks:
  "sorted_by_amp (map (peak_of tie_map) (find_objects [[(0, 0)], [(0, 2)]]))
      = [\<lparr>ix = 0, iy = 0, skydir = (0, 0), amp = 5\<rparr>,
         \<lparr>ix = 2, iy = 0, skydir = (2, 0), amp = 5\<rparr>]"
  by code_simp

lemma grow_unfold_stop:
  "filter (touches feat) rest = [] \<Longrightarrow> grow feat rest = (feat, rest)"
  by (subst grow.simps) simp

lemma grow_unfold_step:
  "filter (touches feat) rest \<noteq> [] \<Longrightarrow>
     grow feat rest = grow (feat @ filter (touches feat) rest) (filter (\<lambda>q. \<not> touches feat q) rest)"
  by (subst grow.simps) simp

lemma grow_filter_keep:
  assumes "\<forall>p \<in> set feat. P p"
    and "\<forall>p \<in> set feat \<union> set rest. \<forall>q \<in> set feat \<union> set rest. adjacent p q \<longrightarrow> P p \<longrightarrow> P q"
  shows "grow feat (filter P rest) = (fst (grow feat rest), filter P (snd (grow feat rest)))"
  using assms
proof (induction feat rest rule: grow.induct)
  case (1 feat rest)
  let ?new = "filter (touches feat) rest" and ?far = "filter (\<lambda>q. \<not> touches feat q) rest"
  have P_new: "\<forall>q \<in> set ?new. P q"
    using "1.prems" by (auto simp: touches_def)
  have new: "filter (touches feat) (filter P rest) = ?new"
    using P_new by (auto simp: filter_id_conv intro!: filter_cong)
  have far: "filter (\<lambda>q. \<not> touches feat q) (filter P rest) = filter P ?far"
    by (auto intro!: filter_cong)
  show ?case
  proof (cases "?new = []")
    case True
    have "filter (touches feat) (filter P rest) = []"
      by (simp only: new True)
    then have "grow feat (filter P rest) = (feat, filter P rest)"
      by (rule grow_unfold_stop)
    with True show ?thesis
      by (simp add: grow_unfold_stop)
  next
    case False
    have ne: "filter (touches feat) (filter P rest) \<noteq> []"
      unfolding new by (rule False)
    have "grow feat (filter P rest) = grow (feat @ ?new) (filter P ?far)"
      unfolding grow_unfold_step [OF ne] by (simp only: new far)
    also have "\<dots> = (fst (grow (feat @ ?new) ?far), filter P (snd (grow (feat @ ?new) ?far)))"
    proof (rule "1.IH" [OF False])
      show "\<forall>p \<in> set (feat @ ?new). P p"
        using "1.prems"(1) P_new by auto
      show "\<forall>p \<in> set (feat @ ?new) \<union> set ?far. \<forall>q \<in> set (feat @ ?new) \<union> set ?far.
          adjacent p q \<longrightarrow> P p \<longrightarrow> P q"
        using "1.prems"(2) by auto
    qed
    also have "grow (feat @ ?new) ?far = grow feat rest"
      using False by (simp add: grow_unfold_step)
    finally show ?thesis .
  qed
qed

lemma grow_filter_drop:
  assumes "\<forall>p \<in> set feat. \<not> P p"
    and "\<forall>p \<in> set feat \<union> set rest. \<forall>q \<in> set feat \<union> set rest. adjacent p q \<longrightarrow> P q \<longrightarrow> P p"
  shows "filter P (snd (grow feat rest)) = filter P rest"
  using assms
proof (induction feat rest rule: grow.induct)
  case (1 feat rest)
  let ?new = "filter (touches feat) rest" and ?far = "filter (\<lambda>q. \<not> touches feat q) rest"
  have not_new: "\<forall>q \<in> set ?new. \<not> P q"
    using "1.prems" by (auto simp: touches_def)
  have far: "filter P ?far = filter P rest"
    using not_new by (auto intro!: filter_cong)
  show ?case
  proof (cases "?new = []")
    case True
    then show ?thesis
      by (simp add: grow_unfold_stop)
  next
    case False
    have "filter P (snd (grow feat rest)) = filter P (snd (grow (feat @ ?new) ?far))"
      by (simp only: grow_unfold_step [OF False])
    also have "\<dots> = filter P ?far"
    proof (rule "1.IH" [OF False])
      show "\<forall>p \<in> set (feat @ ?new). \<not> P p"
        using "1.prems"(1) not_new by auto
      show "\<forall>p \<in> set (feat @ ?new) \<union> set ?far. \<forall>q \<in> set (feat @ ?new) \<union> set ?far.
          adjacent p q \<longrightarrow> P q \<longrightarrow> P p"
        using "1.prems"(2) by auto
    qed
    also have "\<dots> = filter P rest"
      by (rule far)
    finally show ?thesis .
  qed
qed

lemma grow_rest_subset: "set (snd (grow feat rest)) \<subseteq> set rest"
proof (induction feat rest rule: grow.induct)
  case (1 feat rest)
  show ?case
  proof (cases "filter (touches feat) rest = []")
    case True
    then show ?thesis
      by (simp add: grow_unfold_stop)
  next
    case False
    with "1.IH" show ?thesis
      by (auto simp: grow_unfold_step)
  qed
qed

lemma features_filter:
  assumes "\<forall>p \<in> set xs. \<forall>q \<in> set xs. adjacent p q \<longrightarrow> (P p \<longleftrightarrow> P q)"
  shows "features (filter P xs) = filter (\<lambda>f. P (hd f)) (features xs)"
  using assms
proof (induction xs rule: features.induct)
  case 1
  show ?case by simp
next
  case (2 p ps)
  let ?rest = "snd (grow [p] ps)"
  have sub: "set ?rest \<subseteq> set ps"
    by (rule grow_rest_subset)
  have IH: "features (filter P ?rest) = filter (\<lambda>f. P (hd f)) (features ?rest)"
    using "2.prems" sub by (intro "2.IH") auto
  have hd: "hd (fst (grow [p] ps)) = p"
    using grow_hd [of "[p]" ps] by simp
  show ?case
  proof (cases "P p")
    case True
    have "grow [p] (filter P ps) = (fst (grow [p] ps), filter P ?rest)"
      using True "2.prems" by (intro grow_filter_keep) auto
    then show ?thesis
      using True IH hd by simp
  next
    case False
    have "filter P ?rest = filter P ps"
      using False "2.prems" by (intro grow_filter_drop) auto
    then show ?thesis
      using False IH hd by simp
  qed
qed

lemma true_pixels_filter:
  assumes "nrows msk2 = nrows msk1" "ncols msk2 = ncols msk1"
    and "\<And>i j. val msk2 i j \<longleftrightarrow> val msk1 i j \<and> P (i, j)"
  shows "true_pixels msk2 = filter P (true_pixels msk1)"
proof -
  have row: "concat (map (\<lambda>j. if val msk1 i j \<and> P (i, j) then [(i, j)] else []) js)
      = filter P (concat (map (\<lambda>j. if val msk1 i j then [(i, j)] else []) js))" for i js
    by (induction js) simp_all
  have "concat (map (\<lambda>i. concat (map (\<lambda>j. if val msk1 i j \<and> P (i, j) then [(i, j)] else []) js)) is)
      = filter P (concat (map (\<lambda>i. concat (map (\<lambda>j. if val msk1 i j then [(i, j)] else []) js)) is))"
    for "is" js
    by (induction "is") (simp_all add: row)
  then show ?thesis
    by (simp add: true_pixels_def assms)
qed

lemma local_max_raise:
  assumes "local_max input_map t1 min_sep = Inr msk1" "t1 \<le> t2"
  shows "\<exists>msk2. local_max input_map t2 min_sep = Inr msk2
     \<and> nrows msk2 = nrows msk1 \<and> ncols msk2 = ncols msk1
     \<and> (\<forall>i j. val msk2 i j \<longleftrightarrow> val msk1 i j \<and> \<not> val (counts input_map) i j < t2)"
proof -
  from assms(1) obtain region mx where fp: "footprint input_map min_sep = Inr region"
    and mf: "maximum_filter (counts input_map) region = Inr mx"
    and msk1: "msk1 = \<lparr>nrows = nrows (counts input_map), ncols = ncols (counts input_map),
        val = (\<lambda>i j. val mx i j = val (counts input_map) i j
                 \<and> \<not> val (counts input_map) i j < t1)\<rparr>"
    by (auto simp: local_max_def Let_def split: sum.splits)
  let ?msk2 = "\<lparr>nrows = nrows (counts input_map), ncols = ncols (counts input_map),
        val = (\<lambda>i j. val mx i j = val (counts input_map) i j
                 \<and> \<not> val (counts input_map) i j < t2)\<rparr>"
  have "local_max input_map t2 min_sep = Inr ?msk2"
    by (simp add: local_max_def Let_def fp mf)
  moreover have "val ?msk2 i j \<longleftrightarrow> val msk1 i j \<and> \<not> val (counts input_map) i j < t2" for i j
    using assms(2) by (auto simp: msk1)
  ultimately show ?thesis
    by (intro exI [of _ ?msk2]) (simp add: msk1)
qed

lemma adjacent_offset:
  assumes "adjacent (i, j) (k, l)"
  shows "(int l - int j) * (int l - int j) + (int k - int i) * (int k - int i) = 1"
  using assms by (auto simp: adjacent_def)

lemma adjacent_maxima_equal:
  assumes lm: "local_max input_map threshold min_sep = Inr msk"
    and c: "0 < max_cdelt input_map" "max_cdelt input_map < min_sep"
    and p: "p \<in> set (true_pixels msk)" and q: "q \<in> set (true_pixels msk)"
    and adj: "adjacent p q"
  shows "val (counts input_map) (fst p) (snd p) = val (counts input_map) (fst q) (snd q)"
proof -
  obtain i j k l where pq: "p = (i, j)" "q = (k, l)"
    by (cases p, cases q) blast
  from lm have shape: "nrows msk = nrows (counts input_map)" "ncols msk = ncols (counts input_map)"
    by (auto elim: local_max_InrD)
  from p q have P: "val msk i j" "i < nrows (counts input_map)" "j < ncols (counts input_map)"
    and Q: "val msk k l" "k < nrows (counts input_map)" "l < ncols (counts input_map)"
    by (simp_all add: pq in_true_pixels shape)
  have adj': "adjacent (k, l) (i, j)"
    using adj by (auto simp: pq adjacent_def)
  have "sqrt (real_of_int ((int l - int j) * (int l - int j) + (int k - int i) * (int k - int i)))
      * max_cdelt input_map < min_sep"
    using c(2) adj by (simp only: adjacent_offset pq) simp
  with lm c(1) P Q(2,3)
  have "val (counts input_map) k l \<le> val (counts input_map) i j"
    by (rule local_max_dominates)
  moreover have "sqrt (real_of_int ((int j - int l) * (int j - int l) + (int i - int k) * (int i - int k)))
      * max_cdelt input_map < min_sep"
    using c(2) adj' by (simp only: adjacent_offset) simp
  with lm c(1) Q P(2,3)
  have "val (counts input_map) i j \<le> val (counts input_map) k l"
    by (rule local_max_dominates)
  ultimately show ?thesis
    by (simp add: pq)
qed

lemma tie_low_mask:
  "local_max tie_map 2 (1 / 2) = Inr (mask_of (counts tie_map) [(0, 0)] 2)"
  "true_pixels (mask_of (counts tie_map) [(0, 0)] 2) = [(0, 0), (0, 1), (0, 2)]"
  "features [(0, 0), (0, 1), (0, 2)] = [[(0, 0), (0, 1), (0, 2)]]"
proof -
  have "offsets_of tie_map (1 / 2) = [(0, 0)]"
    unfolding tie_map_def by (rule offsets_half)
  then show "local_max tie_map 2 (1 / 2) = Inr (mask_of (counts tie_map) [(0, 0)] 2)"
    by (rule local_max_by_offsets) simp
  show "true_pixels (mask_of (counts tie_map) [(0, 0)] 2) = [(0, 0), (0, 1), (0, 2)]"
    by code_simp
  show "features [(0, 0), (0, 1), (0, 2)] = [[(0, 0), (0, 1), (0, 2)]]"
    by code_simp
qed

lemma tie_high_mask:
  "local_max tie_map 4 (1 / 2) = Inr (mask_of (counts tie_map) [(0, 0)] 4)"
  "true_pixels (mask_of (counts tie_map) [(0, 0)] 4) = [(0, 0), (0, 2)]"
proof -
  have "offsets_of tie_map (1 / 2) = [(0, 0)]"
    unfolding tie_map_def by (rule offsets_half)
  then show "local_max tie_map 4 (1 / 2) = Inr (mask_of (counts tie_map) [(0, 0)] 4)"
    by (rule local_max_by_offsets) simp
  show "true_pixels (mask_of (counts tie_map) [(0, 0)] 4) = [(0, 0), (0, 2)]"
    by code_simp
qed

lemma tie_plateau_peak:
  "sorted_by_amp (map (peak_of tie_map) (find_objects [[(0, 0), (0, 1), (0, 2)]]))
      = [\<lparr>ix = 0, iy = 0, skydir = (0, 0), amp = 5\<rparr>]"
  by code_simp





lemma flat_aniso_map: "flat_wcs aniso_map"
  by (simp add: flat_wcs_def aniso_map_def sky_distance_def right_diff_distrib power2_commute)









text \<open>On the real amplitudes of this model, the list \<open>find_peaks\<close> returns is in
  descending order of amplitude.\<close>

lemma sorted_on_reals:
  assumes "find_peaks input_map threshold min_sep = Inr peaks" "i < j" "j < length peaks"
  shows "amp (peaks ! j) \<le> amp (peaks ! i)"
proof -
  from assms(1) obtain msk where
    "peaks = sorted_by_amp (map (peak_of input_map) (find_objects (label msk)))"
    by (rule find_peaks_InrD)
  with assms(2,3) show ?thesis
    by (simp add: sorted_by_amp_nth)
qed

section \<open>Lemmas about SourceFinder\<close>

lemma stub_first_round:
  "iterate stub_engine pixel_name (options 3 1) [] 0 = Inr ([''PS2_0''], first_round)"
  by code_simp

lemma stub_second_round:
  "iterate stub_engine pixel_name (options 3 1) first_round 1
     = Inr ([], first_round @ [Tsmap ''sourcefind_01'' test_source])"
  by code_simp

lemma stub_round_of_two:
  "iterate stub_engine pixel_name (options 3 2) [] 0 = Inr ([''PS2_0'', ''PS4_0''], round_of_two)"
  by code_simp

lemma echo_second_round:
  "iterate echo_engine pixel_name (options 2 1) first_round 1
     = Inr ([''PS2_0''], first_round @ second_round)"
  by code_simp

lemma added_names_append: "added_names (h @ h') = added_names h @ added_names h'"
  by (simp add: added_names_def)

lemma added_names_adds:
  "added_names (map (add_event csn amp_map) ps) = map (\<lambda>p. csn (skydir p)) ps"
  by (induction ps) (simp_all add: added_names_def add_event_def)

lemma added_names_freezes: "added_names (map (\<lambda>name. FreeSource name False) names) = []"
  by (induction names) (simp_all add: added_names_def)

lemma added_names_refits: "added_names (concat (map refit_events names)) = []"
  by (induction names) (simp_all add: added_names_def refit_events_def)

lemma iterate_added_names:
  assumes "iterate gta csn cfg h i = Inr (srcs, h')"
  obtains m peaks where
    "tsmap_result gta h (tsmap_name i) test_source = Inr m"
    "find_peaks (sqrt_ts m) (sqrt_ts_threshold cfg) (min_separation cfg) = Inr peaks"
    "length srcs = length (py_prefix peaks (sources_per_iter cfg))"
    "added_names (drop (length h) h')
       = map (\<lambda>p. csn (skydir p)) (py_prefix peaks (sources_per_iter cfg))"
  using assms
proof (rule iterate_InrD)
  fix m peaks
  assume m: "tsmap_result gta h (tsmap_name i) test_source = Inr m"
    and pk: "find_peaks (sqrt_ts m) (sqrt_ts_threshold cfg) (min_separation cfg) = Inr peaks"
    and len: "length srcs = length (py_prefix peaks (sources_per_iter cfg))"
    and h': "h' = h @ [Tsmap (tsmap_name i) test_source]
        @ map (add_event csn (amplitude m)) (py_prefix peaks (sources_per_iter cfg))
        @ map (\<lambda>name. FreeSource name False)
            (map (\<lambda>p. csn (skydir p)) (py_prefix peaks (sources_per_iter cfg)))
        @ concat (map refit_events
            (map (\<lambda>p. csn (skydir p)) (py_prefix peaks (sources_per_iter cfg))))"
  let ?names = "map (\<lambda>p. csn (skydir p)) (py_prefix peaks (sources_per_iter cfg))"
  have "drop (length h) h' = [Tsmap (tsmap_name i) test_source]
        @ map (add_event csn (amplitude m)) (py_prefix peaks (sources_per_iter cfg))
        @ map (\<lambda>name. FreeSource name False) ?names
        @ concat (map refit_events ?names)"
    unfolding h' by simp
  then have "added_names (drop (length h) h') = added_names [Tsmap (tsmap_name i) test_source]
        @ added_names (map (add_event csn (amplitude m)) (py_prefix peaks (sources_per_iter cfg)))
        @ added_names (map (\<lambda>name. FreeSource name False) ?names)
        @ added_names (concat (map refit_events ?names))"
    by (simp only: added_names_append)
  also have "\<dots> = ?names"
    by (simp only: added_names_adds added_names_freezes added_names_refits)
      (simp add: added_names_def)
  finally have "added_names (drop (length h) h') = ?names" .
  with m pk len show thesis
    by (rule that)
qed

lemma broken_first_round:
  "tsmap_result broken_engine [] (tsmap_name 0) test_source = Inl EngineError"
  by (simp add: broken_engine_def)

section \<open>Claims about find_peaks\<close>

text \<open>
  C2. Every peak \<open>find_peaks\<close> returns should have an amplitude of at least the threshold.
  It does not: the peak of a feature is read at the origin of its bounding box, and for an
  L-shaped feature that pixel is outside the feature. On the 2 by 2 map with rows
  \<open>[0, 5]\<close> and \<open>[5, 5]\<close> and threshold 3, the one peak returned has amplitude 0.
\<close>

theorem peak_below_threshold:
  "find_peaks corner_map 3 (1 / 2) = Inr [\<lparr>ix = 0, iy = 0, skydir = (0, 0), amp = 0\<rparr>]"
  by (rule corner_peaks)

text \<open>
  C10. For each feature of the thresholded mask, \<open>find_peaks\<close> reports the origin of the
  feature's bounding box, with the grid value there as the amplitude; the reported pixels
  are, counted with multiplicity, the origins of the features. For an L-shaped feature of
  three pixels the origin is not a pixel of the feature: it is not in the mask and its
  amplitude is below the threshold. (Two pixels that touch only at a corner are two
  features under the default structuring element of \<^verbatim>\<open>scipy.ndimage.label\<close>, each
  reported at its own pixel: see the counterexample that follows.)
\<close>

theorem reports_bounding_box_origin:
  "(find_peaks input_map threshold min_sep = Inr peaks \<longrightarrow>
      (\<exists>msk. local_max input_map threshold min_sep = Inr msk
         \<and> mset (map (\<lambda>p. (iy p, ix p)) peaks) = mset (map origin (label msk))
         \<and> (\<forall>p \<in> set peaks. amp p = val (counts input_map) (iy p) (ix p))))
   \<and> (\<exists>msk. local_max corner_map 3 (1 / 2) = Inr msk
         \<and> label msk = [[(0, 1), (1, 1), (1, 0)]]
         \<and> origin [(0, 1), (1, 1), (1, 0)] = (0, 0)
         \<and> \<not> val msk 0 0
         \<and> find_peaks corner_map 3 (1 / 2) = Inr [\<lparr>ix = 0, iy = 0, skydir = (0, 0), amp = 0\<rparr>])"
proof (intro conjI impI)
  assume fp: "find_peaks input_map threshold min_sep = Inr peaks"
  then obtain msk where lm: "local_max input_map threshold min_sep = Inr msk"
    and peaks: "peaks = sorted_by_amp (map (peak_of input_map) (find_objects (label msk)))"
    by (rule find_peaks_InrD)
  have "map (\<lambda>p. (iy p, ix p)) (map (peak_of input_map) (find_objects (label msk)))
      = map origin (label msk)"
    by (simp add: find_objects_def peak_of_origin o_def)
  then have "mset (map (\<lambda>p. (iy p, ix p)) peaks) = mset (map origin (label msk))"
    unfolding peaks by (metis mset_map mset_sorted_by_amp)
  moreover have "\<forall>p \<in> set peaks. amp p = val (counts input_map) (iy p) (ix p)"
    using fp by (blast intro: find_peaks_amp)
  ultimately show "\<exists>msk. local_max input_map threshold min_sep = Inr msk
         \<and> mset (map (\<lambda>p. (iy p, ix p)) peaks) = mset (map origin (label msk))
         \<and> (\<forall>p \<in> set peaks. amp p = val (counts input_map) (iy p) (ix p))"
    using lm by blast
next
  have "label (mask_of (counts corner_map) [(0, 0)] 3) = [[(0, 1), (1, 1), (1, 0)]]"
    unfolding label_def corner_mask(2) by (rule corner_mask(3))
  moreover have "origin [(0, 1), (1, 1), (1, 0)] = (0, 0)"
    by (simp add: origin_simps)
  ultimately show "\<exists>msk. local_max corner_map 3 (1 / 2) = Inr msk
         \<and> label msk = [[(0, 1), (1, 1), (1, 0)]]
         \<and> origin [(0, 1), (1, 1), (1, 0)] = (0, 0)
         \<and> \<not> val msk 0 0
         \<and> find_peaks corner_map 3 (1 / 2) = Inr [\<lparr>ix = 0, iy = 0, skydir = (0, 0), amp = 0\<rparr>]"
    using corner_mask(1,4) corner_peaks by blast
qed

theorem reports_bounding_box_origin_witness:
  "find_peaks three_peaks 1 (1 / 2) =
     Inr [\<lparr>ix = 2, iy = 0, skydir = (2, 0), amp = 5\<rparr>,
          \<lparr>ix = 4, iy = 0, skydir = (4, 0), amp = 4\<rparr>,
          \<lparr>ix = 0, iy = 0, skydir = (0, 0), amp = 3\<rparr>]
   \<and> (\<exists>msk. local_max three_peaks 1 (1 / 2) = Inr msk
          \<and> mset (map origin (label msk)) = {#(0, 2), (0, 4), (0, 0)#})"
proof -
  let ?peaks = "[\<lparr>ix = 2, iy = 0, skydir = (2, 0), amp = 5\<rparr>,
          \<lparr>ix = 4, iy = 0, skydir = (4, 0), amp = 4\<rparr>,
          \<lparr>ix = 0, iy = 0, skydir = (0, 0), amp = (3::real)\<rparr>]"
  from reports_bounding_box_origin [of three_peaks 1 "1 / 2" ?peaks] three_peaks_half
  obtain msk where "local_max three_peaks 1 (1 / 2) = Inr msk"
    and "mset (map (\<lambda>p. (iy p, ix p)) ?peaks) = mset (map origin (label msk))"
    by blast
  then have "local_max three_peaks 1 (1 / 2) = Inr msk
      \<and> mset (map origin (label msk)) = {#(0, 2), (0, 4), (0, 0)#}"
    by simp
  with three_peaks_half show ?thesis
    by blast
qed

text \<open>
  C10, as stated, names a diagonally-connected two-pixel component as an input whose
  reported pixel is not in the component. On the map with rows \<open>[0, 5]\<close> and \<open>[5, 0]\<close>
  the two pixels are two features, and both reported pixels are in the mask.
\<close>

theorem diagonal_pair_counterexample:
  "find_peaks diagonal_map 3 (1 / 2) =
     Inr [\<lparr>ix = 1, iy = 0, skydir = (1, 0), amp = 5\<rparr>,
          \<lparr>ix = 0, iy = 1, skydir = (0, 1), amp = 5\<rparr>]
   \<and> (\<exists>msk. local_max diagonal_map 3 (1 / 2) = Inr msk
          \<and> label msk = [[(0, 1)], [(1, 0)]] \<and> val msk 0 1 \<and> val msk 1 0)"
proof -
  have "label (mask_of (counts diagonal_map) [(0, 0)] 3) = [[(0, 1)], [(1, 0)]]"
    unfolding label_def diagonal_mask(2) by (rule diagonal_mask(3))
  moreover have "val (mask_of (counts diagonal_map) [(0, 0)] 3) 0 1"
    by code_simp
  moreover have "val (mask_of (counts diagonal_map) [(0, 0)] 3) 1 0"
    by code_simp
  ultimately show ?thesis
    using diagonal_peaks diagonal_mask(1) by blast
qed

text \<open>
  C3, amended. When the minimum separation exceeds the (positive) pixel scale, so that the
  footprint holds the four edge neighbours of a pixel, raising the threshold never
  raises the number of peaks: if \<open>find_peaks\<close> returns at the lower threshold, it returns
  at the higher one, with at most as many peaks.
\<close>

theorem threshold_antitone:
  assumes "0 < max_cdelt input_map" "max_cdelt input_map < min_sep" "t1 \<le> t2"
    and "find_peaks input_map t1 min_sep = Inr peaks1"
  shows "\<exists>peaks2. find_peaks input_map t2 min_sep = Inr peaks2 \<and> length peaks2 \<le> length peaks1"
proof -
  let ?P = "\<lambda>p. \<not> val (counts input_map) (fst p) (snd p) < t2"
  from assms(4) obtain msk1 where lm1: "local_max input_map t1 min_sep = Inr msk1"
    and peaks1: "peaks1 = sorted_by_amp (map (peak_of input_map) (find_objects (label msk1)))"
    by (rule find_peaks_InrD)
  from local_max_raise [OF lm1 assms(3)]
  obtain msk2 where lm2: "local_max input_map t2 min_sep = Inr msk2"
    and shape: "nrows msk2 = nrows msk1" "ncols msk2 = ncols msk1"
    and vals: "\<And>i j. val msk2 i j \<longleftrightarrow> val msk1 i j \<and> \<not> val (counts input_map) i j < t2"
    by blast
  have "true_pixels msk2 = filter ?P (true_pixels msk1)"
    using shape vals by (intro true_pixels_filter) simp_all
  moreover have "\<forall>p \<in> set (true_pixels msk1). \<forall>q \<in> set (true_pixels msk1).
      adjacent p q \<longrightarrow> (?P p \<longleftrightarrow> ?P q)"
    using adjacent_maxima_equal [OF lm1 assms(1,2)] by simp
  ultimately have "label msk2 = filter (\<lambda>f. ?P (hd f)) (label msk1)"
    unfolding label_def by (simp only: features_filter)
  then have "length (label msk2) \<le> length (label msk1)"
    by simp
  then have "length (sorted_by_amp (map (peak_of input_map) (find_objects (label msk2))))
      \<le> length peaks1"
    by (simp add: peaks1 length_sorted_by_amp find_objects_def)
  moreover have "find_peaks input_map t2 min_sep
      = Inr (sorted_by_amp (map (peak_of input_map) (find_objects (label msk2))))"
    by (simp add: find_peaks_def lm2)
  ultimately show ?thesis
    by blast
qed

theorem threshold_antitone_witness:
  "find_peaks three_peaks 1 (3 / 2) =
     Inr [\<lparr>ix = 2, iy = 0, skydir = (2, 0), amp = 5\<rparr>,
          \<lparr>ix = 4, iy = 0, skydir = (4, 0), amp = 4\<rparr>,
          \<lparr>ix = 0, iy = 0, skydir = (0, 0), amp = 3\<rparr>]
   \<and> (\<exists>peaks2. find_peaks three_peaks (9 / 2) (3 / 2) = Inr peaks2 \<and> length peaks2 \<le> 3)"
proof -
  have "0 < max_cdelt three_peaks" "max_cdelt three_peaks < 3 / 2" "(1 :: real) \<le> 9 / 2"
    by (simp_all add: three_peaks_def max_cdelt_grid_map)
  from threshold_antitone [OF this three_peaks_wide] three_peaks_wide show ?thesis
    by (simp add: numeral_3_eq_3)
qed

text \<open>
  C3 as stated fails when the footprint is the centre pixel alone (a minimum separation
  of at most the pixel scale): every pixel is then a local maximum, and a higher
  threshold can cut one feature in two. On the row \<open>[5, 3, 5]\<close>, threshold 2 gives one
  peak and threshold 4 gives two.
\<close>

theorem threshold_splits_counterexample:
  "(2 :: real) < 4
   \<and> find_peaks tie_map 2 (1 / 2) = Inr [\<lparr>ix = 0, iy = 0, skydir = (0, 0), amp = 5\<rparr>]
   \<and> find_peaks tie_map 4 (1 / 2) =
       Inr [\<lparr>ix = 0, iy = 0, skydir = (0, 0), amp = 5\<rparr>,
            \<lparr>ix = 2, iy = 0, skydir = (2, 0), amp = 5\<rparr>]"
proof -
  have "find_peaks tie_map 2 (1 / 2) = Inr [\<lparr>ix = 0, iy = 0, skydir = (0, 0), amp = 5\<rparr>]"
    using tie_low_mask tie_plateau_peak by (rule find_peaks_by_features)
  moreover have "find_peaks tie_map 4 (1 / 2) =
       Inr [\<lparr>ix = 0, iy = 0, skydir = (0, 0), amp = 5\<rparr>,
            \<lparr>ix = 2, iy = 0, skydir = (2, 0), amp = 5\<rparr>]"
    using tie_high_mask tie_far_mask(3) tie_peaks by (rule find_peaks_by_features)
  ultimately show ?thesis
    by simp
qed




text \<open>
  C7. The list \<open>find_peaks\<close> returns should be in descending order of amplitude. On grids
  of numbers it is (\<open>sorted_on_reals\<close>). The amplitude of a peak is read at the origin of
  the bounding box of its feature, which need not be a pixel of the feature (see C2); when
  the grid holds NaN there, the amplitude is NaN, every comparison with it is false, and
  Python's sort leaves the list as it finds it. NaN is outside this model.
\<close>

section \<open>Claims about SourceFinder\<close>

text \<open>
  C4. \<open>find_sources\<close> runs at most \<open>max_iter\<close> rounds (a round is one call of the engine's
  \<^verbatim>\<open>tsmap\<close>), and a round that yields no source ends the loop with the sources gathered
  so far. In particular, with \<open>max_iter = 3\<close>, a first round that yields sources and a
  second round that yields none, the result is the first round's sources and the history
  is the one after the second round: two rounds ran, and no third.
\<close>

theorem find_sources_stops:
  "(find_sources gta csn cfg h = Inr (out, h') \<longrightarrow>
      rounds_run h' \<le> rounds_run h + nat (max_iter cfg))
   \<and> (iterate gta csn cfg h i = Inr ([], h1) \<longrightarrow>
      rounds gta csn cfg (i # rest) (acc, h) = Inr (acc, h1))
   \<and> (max_iter cfg = 3 \<and> iterate gta csn cfg h 0 = Inr (s0, h1) \<and> s0 \<noteq> []
        \<and> iterate gta csn cfg h1 1 = Inr ([], h2) \<longrightarrow>
      find_sources gta csn cfg h = Inr (s0, h2) \<and> rounds_run h2 = rounds_run h + 2)"
proof (intro conjI impI)
  assume "find_sources gta csn cfg h = Inr (out, h')"
  then have "rounds_run h' \<le> rounds_run h + length [0..<nat (max_iter cfg)]"
    unfolding find_sources_def by (rule rounds_bound)
  then show "rounds_run h' \<le> rounds_run h + nat (max_iter cfg)"
    by simp
next
  assume "iterate gta csn cfg h i = Inr ([], h1)"
  then show "rounds gta csn cfg (i # rest) (acc, h) = Inr (acc, h1)"
    by simp
next
  assume a: "max_iter cfg = 3 \<and> iterate gta csn cfg h 0 = Inr (s0, h1) \<and> s0 \<noteq> []
        \<and> iterate gta csn cfg h1 1 = Inr ([], h2)"
  have idx: "[0..<nat (max_iter cfg)] = [0, 1, 2]"
    using a by (simp add: upt_conv_Cons)
  show "find_sources gta csn cfg h = Inr (s0, h2)"
    using a unfolding find_sources_def idx by simp
next
  assume a: "max_iter cfg = 3 \<and> iterate gta csn cfg h 0 = Inr (s0, h1) \<and> s0 \<noteq> []
        \<and> iterate gta csn cfg h1 1 = Inr ([], h2)"
  then have r0: "iterate gta csn cfg h 0 = Inr (s0, h1)"
    and r1: "iterate gta csn cfg h1 1 = Inr ([], h2)"
    by simp_all
  have "rounds_run h1 = Suc (rounds_run h)"
    using r0 by (rule iterate_rounds_run)
  moreover have "rounds_run h2 = Suc (rounds_run h1)"
    using r1 by (rule iterate_rounds_run)
  ultimately show "rounds_run h2 = rounds_run h + 2"
    by simp
qed

theorem find_sources_stops_witness:
  "find_sources stub_engine pixel_name (options 3 1) []
     = Inr ([''PS2_0''], first_round @ [Tsmap ''sourcefind_01'' test_source])
   \<and> rounds_run (first_round @ [Tsmap ''sourcefind_01'' test_source]) = 2
   \<and> rounds_run (first_round @ [Tsmap ''sourcefind_01'' test_source]) \<le> 3
   \<and> rounds stub_engine pixel_name (options 3 1) [1, 2] ([''PS2_0''], first_round)
     = Inr ([''PS2_0''], first_round @ [Tsmap ''sourcefind_01'' test_source])"
proof -
  let ?h2 = "first_round @ [Tsmap ''sourcefind_01'' test_source]"
  have three: "max_iter (options 3 1) = 3"
    by (simp add: options_def)
  have fs: "find_sources stub_engine pixel_name (options 3 1) [] = Inr ([''PS2_0''], ?h2)"
    and rr: "rounds_run ?h2 = rounds_run [] + 2"
    using find_sources_stops [where gta = stub_engine and csn = pixel_name
        and cfg = "options 3 1" and h = "[]" and ?s0.0 = "[''PS2_0'']" and ?h1.0 = first_round
        and ?h2.0 = ?h2]
      three stub_first_round stub_second_round
    by simp_all
  have le: "rounds_run ?h2 \<le> rounds_run [] + nat (max_iter (options 3 1))"
    using find_sources_stops [where gta = stub_engine and csn = pixel_name
        and cfg = "options 3 1" and h = "[]" and out = "[''PS2_0'']" and h' = ?h2] fs
    by simp
  have stop: "rounds stub_engine pixel_name (options 3 1) (1 # [2]) ([''PS2_0''], first_round)
      = Inr ([''PS2_0''], ?h2)"
    using find_sources_stops [where gta = stub_engine and csn = pixel_name
        and cfg = "options 3 1" and h = first_round and i = 1 and ?h1.0 = ?h2 and rest = "[2]"
        and acc = "[''PS2_0'']"] stub_second_round
    by simp
  from fs rr le stop show ?thesis
    by (simp add: three rounds_run_def)
qed




text \<open>
  C6. In a round that returns, the calls made to the engine are, in this order: the
  \<^verbatim>\<open>tsmap\<close> of the round; \<^verbatim>\<open>add_source\<close> for each promoted peak, free; \<^verbatim>\<open>free_source\<close>
  with \<open>False\<close> for each of the round's names; then for each name, in registration order,
  \<^verbatim>\<open>free_source\<close> with \<open>True\<close>, \<^verbatim>\<open>fit\<close>, and \<^verbatim>\<open>free_source\<close> with \<open>False\<close>.
\<close>

theorem round_call_sequence:
  assumes "iterate gta csn cfg h i = Inr (srcs, h')"
  shows "\<exists>m peaks. tsmap_result gta h (tsmap_name i) test_source = Inr m
     \<and> find_peaks (sqrt_ts m) (sqrt_ts_threshold cfg) (min_separation cfg) = Inr peaks
     \<and> h' = h @ [Tsmap (tsmap_name i) test_source]
        @ map (\<lambda>p. AddSource (csn (skydir p))
                 (new_source p (val (counts (amplitude m)) (iy p) (ix p))) True)
            (py_prefix peaks (sources_per_iter cfg))
        @ map (\<lambda>name. FreeSource name False)
            (map (\<lambda>p. csn (skydir p)) (py_prefix peaks (sources_per_iter cfg)))
        @ concat (map (\<lambda>name. [FreeSource name True, Fit, FreeSource name False])
            (map (\<lambda>p. csn (skydir p)) (py_prefix peaks (sources_per_iter cfg))))"
  using assms
proof (rule iterate_InrD)
  fix m peaks
  assume "tsmap_result gta h (tsmap_name i) test_source = Inr m"
    and "find_peaks (sqrt_ts m) (sqrt_ts_threshold cfg) (min_separation cfg) = Inr peaks"
    and "h' = h @ [Tsmap (tsmap_name i) test_source]
        @ map (add_event csn (amplitude m)) (py_prefix peaks (sources_per_iter cfg))
        @ map (\<lambda>name. FreeSource name False)
            (map (\<lambda>p. csn (skydir p)) (py_prefix peaks (sources_per_iter cfg)))
        @ concat (map refit_events
            (map (\<lambda>p. csn (skydir p)) (py_prefix peaks (sources_per_iter cfg))))"
  moreover have "add_event csn (amplitude m)
      = (\<lambda>p. AddSource (csn (skydir p))
                 (new_source p (val (counts (amplitude m)) (iy p) (ix p))) True)"
    by (rule ext) (simp add: add_event_def)
  moreover have "refit_events = (\<lambda>name. [FreeSource name True, Fit, FreeSource name False])"
    by (rule ext) (simp add: refit_events_def)
  ultimately show ?thesis
    by (intro exI [of _ m] exI [of _ peaks]) (simp only: simp_thms)
qed

theorem round_call_sequence_witness:
  "iterate stub_engine pixel_name (options 3 2) [] 0 = Inr ([''PS2_0'', ''PS4_0''], round_of_two)
   \<and> (\<exists>peaks. find_peaks three_peaks 1 (1 / 2) = Inr peaks
       \<and> round_of_two = [Tsmap (tsmap_name 0) test_source]
        @ map (\<lambda>p. AddSource (pixel_name (skydir p))
                 (new_source p (val (counts three_peaks) (iy p) (ix p))) True) (py_prefix peaks 2)
        @ map (\<lambda>name. FreeSource name False) (map (\<lambda>p. pixel_name (skydir p)) (py_prefix peaks 2))
        @ concat (map (\<lambda>name. [FreeSource name True, Fit, FreeSource name False])
            (map (\<lambda>p. pixel_name (skydir p)) (py_prefix peaks 2))))"
  using round_call_sequence [OF stub_round_of_two] stub_round_of_two
  by (auto simp: options_def stub_engine_def rounds_run_def)

text \<open>
  C8, amended. \<open>find_sources\<close> does not check its options. With a non-positive
  \<open>max_iter\<close> it returns an empty list of sources, without an error and without calling
  the engine. With a positive \<open>max_iter\<close> its first action is the engine's \<^verbatim>\<open>tsmap\<close> call
  of round 0, whatever \<open>min_separation\<close> is: when that call raises, \<open>find_sources\<close> raises
  the engine's error. \<open>min_separation\<close> is first read by \<open>find_peaks\<close>, inside round 0
  and after that call: what \<open>find_peaks\<close> raises there, \<open>find_sources\<close> raises.
\<close>

theorem no_configuration_check:
  "(max_iter cfg \<le> 0 \<longrightarrow> find_sources gta csn cfg h = Inr ([], h))
   \<and> (0 < max_iter cfg \<and> tsmap_result gta h (tsmap_name 0) test_source = Inl e \<longrightarrow>
        find_sources gta csn cfg h = Inl e)
   \<and> (0 < max_iter cfg \<and> tsmap_result gta h (tsmap_name 0) test_source = Inr m
        \<and> find_peaks (sqrt_ts m) (sqrt_ts_threshold cfg) (min_separation cfg) = Inl e' \<longrightarrow>
        find_sources gta csn cfg h = Inl e')"
proof (intro conjI impI)
  assume "max_iter cfg \<le> 0"
  then show "find_sources gta csn cfg h = Inr ([], h)"
    by (simp add: find_sources_def)
next
  assume a: "0 < max_iter cfg \<and> tsmap_result gta h (tsmap_name 0) test_source = Inl e"
  then have "[0..<nat (max_iter cfg)] = 0 # [1..<nat (max_iter cfg)]"
    by (simp add: upt_conv_Cons)
  moreover have "iterate gta csn cfg h 0 = Inl e"
    using a by (simp add: iterate_def call_tsmap_def)
  ultimately show "find_sources gta csn cfg h = Inl e"
    by (simp add: find_sources_def)
next
  assume a: "0 < max_iter cfg \<and> tsmap_result gta h (tsmap_name 0) test_source = Inr m
        \<and> find_peaks (sqrt_ts m) (sqrt_ts_threshold cfg) (min_separation cfg) = Inl e'"
  then have "[0..<nat (max_iter cfg)] = 0 # [1..<nat (max_iter cfg)]"
    by (simp add: upt_conv_Cons)
  moreover have "iterate gta csn cfg h 0 = Inl e'"
    using a by (simp add: iterate_def call_tsmap_def)
  ultimately show "find_sources gta csn cfg h = Inl e'"
    by (simp add: find_sources_def)
qed

theorem no_configuration_check_witness:
  "find_sources stub_engine pixel_name (options (- 2) 1) [] = Inr ([], [])
   \<and> find_sources broken_engine pixel_name (options 3 1) [] = Inl EngineError
   \<and> find_peaks three_peaks 1 (- 1) = Inl ValueError
   \<and> find_sources stub_engine pixel_name
        \<lparr>max_iter = 3, sqrt_ts_threshold = 1, min_separation = - 1, sources_per_iter = 1\<rparr> []
      = Inl ValueError"
proof -
  let ?cfg = "\<lparr>max_iter = 3, sqrt_ts_threshold = 1, min_separation = - 1,
    sources_per_iter = 1\<rparr>"
  have bad: "find_peaks three_peaks 1 (- 1) = Inl ValueError"
    by code_simp
  have "tsmap_result stub_engine [] (tsmap_name 0) test_source
      = Inr \<lparr>sqrt_ts = three_peaks, amplitude = three_peaks\<rparr>"
    by (simp add: stub_engine_def rounds_run_def)
  with bad have "find_sources stub_engine pixel_name ?cfg [] = Inl ValueError"
    using no_configuration_check [where cfg = ?cfg and gta = stub_engine
      and csn = pixel_name and h = "[]"
      and m = "\<lparr>sqrt_ts = three_peaks, amplitude = three_peaks\<rparr>" and e' = ValueError]
    by simp
  with bad show ?thesis
    using no_configuration_check [where cfg = "options (- 2) 1" and gta = stub_engine
      and csn = pixel_name and h = "[]"]
    no_configuration_check [where cfg = "options 3 1" and gta = broken_engine
      and csn = pixel_name and h = "[]" and e = EngineError]
    broken_first_round
    by (simp add: options_def)
qed

text \<open>
  C8 as stated fails: with \<open>max_iter = 0\<close> and \<open>min_separation = -1\<close> the call returns
  normally.
\<close>

theorem unchecked_options_counterexample:
  "find_sources stub_engine pixel_name
     \<lparr>max_iter = 0, sqrt_ts_threshold = 1, min_separation = - 1, sources_per_iter = 1\<rparr> []
   = Inr ([], [])"
  by (simp add: find_sources_def)

text \<open>
  C9, amended. A round does not compare names: every promoted peak is registered with
  \<^verbatim>\<open>add_source\<close> under the name generated for it, one call for each promoted peak and
  in their order, also when that name was registered before; the round returns one
  source for each promoted peak.
\<close>

theorem registers_every_promoted_peak:
  assumes "iterate gta csn cfg h i = Inr (srcs, h')"
  shows "\<exists>m peaks. tsmap_result gta h (tsmap_name i) test_source = Inr m
     \<and> find_peaks (sqrt_ts m) (sqrt_ts_threshold cfg) (min_separation cfg) = Inr peaks
     \<and> added_names (drop (length h) h')
         = map (\<lambda>p. csn (skydir p)) (py_prefix peaks (sources_per_iter cfg))
     \<and> length srcs = length (py_prefix peaks (sources_per_iter cfg))"
  using assms by (rule iterate_added_names) blast

theorem registers_every_promoted_peak_witness:
  "iterate echo_engine pixel_name (options 2 1) first_round 1
     = Inr ([''PS2_0''], first_round @ second_round)
   \<and> added_names first_round = [''PS2_0'']
   \<and> (\<exists>peaks. find_peaks three_peaks 1 (1 / 2) = Inr peaks
        \<and> added_names second_round = map (\<lambda>p. pixel_name (skydir p)) (py_prefix peaks 1))"
proof -
  have "added_names first_round = [''PS2_0'']"
    by code_simp
  with registers_every_promoted_peak [OF echo_second_round] echo_second_round show ?thesis
    by (auto simp: options_def echo_engine_def)
qed

text \<open>
  C9 as stated fails: when the second round finds the peak of the first round again, the
  same name is generated, and it is registered a second time; nothing is skipped.
\<close>

theorem duplicate_name_counterexample:
  "find_sources echo_engine pixel_name (options 2 1) []
     = Inr ([''PS2_0'', ''PS2_0''], first_round @ second_round)
   \<and> added_names (first_round @ second_round) = [''PS2_0'', ''PS2_0'']"
  by code_simp

end
